theory Spec2Isabelle
  imports Complex_Main "HOL-Library.Sublist" "HOL-Library.Product_Lexorder"
begin

section \<open>Data model\<close>

text \<open>
  A coordinate pair is a JavaScript array \<^verbatim>\<open>[longitude, latitude]\<close>, that is an object: two
  arrays holding the same numbers are still two objects, and \<^verbatim>\<open>!==\<close> between arrays compares
  the objects, not the numbers. The record carries the identity of the array in \<open>ident\<close>; the
  numbers are read by \<open>lng\<close> (index 0) and \<open>lat\<close> (index 1). One array has one content, so
  two records of one \<open>ident\<close> that stand for arrays of one heap are equal, and \<^verbatim>\<open>a !== b\<close> is
  inequality of the records.

  A coordinate is a finite number, the real that the double denotes (\<^verbatim>\<open>-0\<close> is read as 0:
  the two are equal in every comparison, and no division by a coordinate is made). The
  arithmetic of the crossing test of \<open>isPointInPolygon\<close> is double-precision arithmetic,
  with its rounding (section on double-precision arithmetic). The margin of the expanded
  bounds and the stride of the route's decimation are computed exactly.
\<close>

record coord =
  ident :: nat
  lng :: real
  lat :: real

type_synonym ring = "coord list"

text \<open>The boundaries of the data model: a polygon (a list of rings, the first one the
  primary ring) or a multi-polygon (a list of polygons).\<close>

datatype geometry = Polygon "ring list" | MultiPolygon "ring list list"

text \<open>Property values are JSON scalars; \<open>JUndefined\<close> is what reading an absent key gives.\<close>

datatype jsval = JUndefined | JNull | JBool bool | JNum real | JStr string

type_synonym props = "(string \<times> jsval) list"

record feature =
  properties :: "props option"
  geometry :: "geometry option"

record geojson =
  features :: "feature list option"

text \<open>What the code throws, as values: a \<^verbatim>\<open>TypeError\<close> of the runtime (a member read on
  \<^verbatim>\<open>undefined\<close>), a failure inside the simplification library, a rejected \<^verbatim>\<open>fetch\<close>, the
  \<^verbatim>\<open>Error\<close> the hook throws on a response that is not ok (with its status), and a body that
  is not JSON.\<close>

datatype js_error = TypeError | LibraryError | NetworkError | HttpError nat | SyntaxError

text \<open>\<^verbatim>\<open>arr.filter((x, index) => p(x, index))\<close>\<close>

definition filter_index :: "('a \<Rightarrow> nat \<Rightarrow> bool) \<Rightarrow> 'a list \<Rightarrow> 'a list" where
  "filter_index p xs = map snd (filter (\<lambda>(i, x). p x i) (enumerate 0 xs))"

section \<open>Simplifier (geoUtils.js, simplifyGeoJSON)\<close>

text \<open>
  The body of the \<^verbatim>\<open>if (coords.length > 100)\<close> branch: the stride, the decimation and the
  re-appended last point. \<^verbatim>\<open>reducedCoords[reducedCoords.length - 1]\<close> of an empty array is
  \<^verbatim>\<open>undefined\<close>, which differs from every coordinate pair.
\<close>

definition reduceCoords :: "ring \<Rightarrow> ring" where
  "reduceCoords coords =
     (let step = nat \<lceil>real (length coords) / 50\<rceil>;
          reducedCoords = filter_index (\<lambda>_ index. index mod step = 0) coords
      in if reducedCoords = [] \<or> last reducedCoords \<noteq> last coords
         then reducedCoords @ [last coords]
         else reducedCoords)"

text \<open>The callback of \<^verbatim>\<open>simplified.features.map\<close>: only a feature of type Polygon whose
  first ring exists is looked at, and only a ring of more than 100 points is rewritten.\<close>

fun capFeature :: "feature \<Rightarrow> feature" where
  "capFeature feature =
     (case geometry feature of
        Some (Polygon (coords # rest)) \<Rightarrow>
          if length coords > 100
          then feature\<lparr>geometry := Some (Polygon (reduceCoords coords # rest))\<rparr>
          else feature
      | _ \<Rightarrow> feature)"

text \<open>
  \<open>simplify\<close> is the default export of the package simplify-geojson, which is not part of
  this repository: it is a parameter. The call passes \<^verbatim>\<open>true\<close> as the third argument, which
  that package reads as \<^verbatim>\<open>dontClone\<close>: the library then works on the very object it is
  given and rewrites it in place. So a run of the library is either \<open>Inr\<close> with the collection
  it returns, or \<open>Inl\<close> with the error it throws and the collection it was given, in the
  state in which the library left it when it threw.
\<close>

type_synonym simplifier = "geojson \<Rightarrow> real \<Rightarrow> (js_error \<times> geojson) + geojson"

text \<open>
  The \<^verbatim>\<open>catch\<close> returns \<^verbatim>\<open>geojson\<close>, the object that was passed in, which by then holds
  whatever the library wrote into it before it threw. The callback of the map reads only
  members that every feature of this model has, so it does not throw.
\<close>

definition simplifyGeoJSON :: "simplifier \<Rightarrow> geojson \<Rightarrow> real \<Rightarrow> geojson" where
  "simplifyGeoJSON simplify geojson tolerance =
     (case simplify geojson tolerance of
        Inl (error, left) \<Rightarrow> left
      | Inr simplified \<Rightarrow>
          (case features simplified of
             Some fs \<Rightarrow> simplified\<lparr>features := Some (map capFeature fs)\<rparr>
           | None \<Rightarrow> simplified))"

text \<open>A ring is closed when its first and its last point hold the same numbers.\<close>

definition closed_ring :: "ring \<Rightarrow> bool" where
  "closed_ring r = (r \<noteq> [] \<and> lng (hd r) = lng (last r) \<and> lat (hd r) = lat (last r))"

text \<open>The primary ring of a Polygon feature, when there is one.\<close>

fun primary_ring :: "feature \<Rightarrow> ring option" where
  "primary_ring f =
     (case geometry f of Some (Polygon (coords # rest)) \<Rightarrow> Some coords | _ \<Rightarrow> None)"

definition polygons_closed :: "geojson \<Rightarrow> bool" where
  "polygons_closed g =
     (case features g of
        None \<Rightarrow> True
      | Some fs \<Rightarrow> list_all (\<lambda>f. case primary_ring f of None \<Rightarrow> True | Some r \<Rightarrow> closed_ring r) fs)"

text \<open>The primary ring of the \<open>i\<close>-th feature of a collection.\<close>

definition primary_ring_at :: "geojson \<Rightarrow> nat \<Rightarrow> ring option" where
  "primary_ring_at g i =
     (case features g of
        None \<Rightarrow> None
      | Some fs \<Rightarrow> if i < length fs then primary_ring (fs ! i) else None)"

subsection \<open>Sample data\<close>

text \<open>A closed ring of 102 points, 101 of them on a zigzag of amplitude one degree: no
  point of it lies within a tolerance of 0.005 of the line through its neighbours, so a
  tolerance-driven line simplification keeps them all (\<open>keep_all\<close> is such a run of the
  library).\<close>

definition zigzag :: ring where
  "zigzag = map (\<lambda>i. \<lparr>ident = i, lng = real i, lat = (if even i then 0 else 1)\<rparr>) [0..<101]
            @ [\<lparr>ident = 101, lng = 0, lat = 0\<rparr>]"

definition keep_all :: simplifier where
  "keep_all g tolerance = Inr g"

definition zigzag_polygon :: geojson where
  "zigzag_polygon =
     \<lparr>features = Some [\<lparr>properties = None, geometry = Some (Polygon [zigzag])\<rparr>]\<rparr>"

definition zigzag_multipolygon :: geojson where
  "zigzag_multipolygon =
     \<lparr>features = Some [\<lparr>properties = None, geometry = Some (MultiPolygon [[zigzag]])\<rparr>]\<rparr>"

text \<open>
  A collection of two features, and a run of the library on it that throws at the second
  feature (which has no geometry to read a type from) after it has rewritten the ring of
  the first one, a closed ring of five points of which the tolerance leaves the two ends.
\<close>

definition kite :: ring where
  "kite =
     [\<lparr>ident = 0, lng = 0, lat = 0\<rparr>, \<lparr>ident = 1, lng = 1 / 1024, lat = 0\<rparr>,
      \<lparr>ident = 2, lng = 1 / 1024, lat = 1 / 1024\<rparr>, \<lparr>ident = 3, lng = 0, lat = 1 / 1024\<rparr>,
      \<lparr>ident = 4, lng = 0, lat = 0\<rparr>]"

definition two_features :: geojson where
  "two_features =
     \<lparr>features = Some [\<lparr>properties = None, geometry = Some (Polygon [kite])\<rparr>,
                       \<lparr>properties = None, geometry = None\<rparr>]\<rparr>"

definition half_rewritten :: geojson where
  "half_rewritten =
     \<lparr>features = Some [\<lparr>properties = None,
                        geometry = Some (Polygon [[\<lparr>ident = 5, lng = 0, lat = 0\<rparr>,
                                                   \<lparr>ident = 6, lng = 0, lat = 0\<rparr>]])\<rparr>,
                       \<lparr>properties = None, geometry = None\<rparr>]\<rparr>"

definition throws_at_second :: simplifier where
  "throws_at_second g tolerance = Inl (TypeError, half_rewritten)"

section \<open>Properties of the simplifier\<close>

lemma filter_index_nths: "filter_index (\<lambda>_ i. P i) xs = nths xs {i. P i}"
proof -
  have "filter_index (\<lambda>_ i. P i) xs
      = map snd (filter (\<lambda>p. P (fst p)) (zip [0..<length xs] xs))"
    by (simp add: filter_index_def case_prod_unfold enumerate_eq_zip)
  also have "\<dots> = map fst (filter (\<lambda>p. P (snd p)) (zip xs [0..<length xs]))"
  proof -
    have "zip [0..<length xs] xs = map (\<lambda>(a, b). (b, a)) (zip xs [0..<length xs])"
      by (rule zip_commute)
    then show ?thesis
      by (simp add: filter_map comp_def case_prod_unfold)
  qed
  finally show ?thesis
    by (simp add: nths_def)
qed

lemma length_stride_le:
  assumes "length xs \<le> m * k"
  shows "length (filter_index (\<lambda>_ i. i mod k = 0) xs) \<le> m"
proof -
  have "length (filter_index (\<lambda>_ i. i mod k = 0) xs)
      = card {i. i < length xs \<and> i mod k = 0}"
    by (simp add: filter_index_nths length_nths)
  also have "\<dots> \<le> card ((\<lambda>j. j * k) ` {0..<m})"
  proof (rule card_mono)
    show "{i. i < length xs \<and> i mod k = 0} \<subseteq> (\<lambda>j. j * k) ` {0..<m}"
    proof
      fix i assume "i \<in> {i. i < length xs \<and> i mod k = 0}"
      then have lt: "i < length xs" and dv: "i mod k = 0" by simp_all
      from lt assms have "i < m * k" by simp
      then have kpos: "0 < k" by (cases k) simp_all
      from dv have "i = (i div k) * k" by (simp add: mod_eq_0_iff_dvd)
      moreover from \<open>i < m * k\<close> kpos have "i div k < m"
        by (simp add: less_mult_imp_div_less)
      ultimately show "i \<in> (\<lambda>j. j * k) ` {0..<m}"
        by (metis atLeastLessThan_iff image_eqI le0)
    qed
  qed simp
  also have "\<dots> \<le> card {0..<m}" by (rule card_image_le) simp
  finally show ?thesis by simp
qed

lemma stride_keeps_head:
  assumes "xs \<noteq> []"
  shows "filter_index (\<lambda>_ i. i mod k = 0) xs \<noteq> []
       \<and> hd (filter_index (\<lambda>_ i. i mod k = 0) xs) = hd xs"
proof -
  from assms obtain x rest where xs: "xs = x # rest" by (cases xs) auto
  then show ?thesis
    by (simp add: filter_index_def)
qed

lemma step_covers: "length (coords::ring) \<le> 50 * nat \<lceil>real (length coords) / 50\<rceil>"
proof -
  define c where "c = \<lceil>real (length coords) / 50\<rceil>"
  have "real (length coords) / 50 \<le> of_int c"
    unfolding c_def by (rule le_of_int_ceiling)
  then have "real (length coords) \<le> 50 * real_of_int c"
    by (simp add: field_simps)
  then have "int (length coords) \<le> 50 * c"
    by linarith
  then show ?thesis unfolding c_def by linarith
qed

lemma reduceCoords_length: "length (reduceCoords coords) \<le> 51"
proof -
  have "length (filter_index (\<lambda>_ i. i mod nat \<lceil>real (length coords) / 50\<rceil> = 0) coords) \<le> 50"
    by (rule length_stride_le) (rule step_covers)
  then show ?thesis
    by (simp add: reduceCoords_def Let_def)
qed

lemma reduceCoords_ends:
  assumes "coords \<noteq> []"
  shows "reduceCoords coords \<noteq> []" "hd (reduceCoords coords) = hd coords"
    "last (reduceCoords coords) = last coords"
  using stride_keeps_head[OF assms, of "nat \<lceil>real (length coords) / 50\<rceil>"]
  by (auto simp: reduceCoords_def Let_def)

lemma zigzag_closed: "closed_ring zigzag"
  by (simp add: closed_ring_def zigzag_def hd_append hd_map)

lemma zigzag_length: "length zigzag = 102"
  by (simp add: zigzag_def)

text \<open>
  C1. When every Polygon feature of the input has a closed primary ring, and the
  simplification library keeps the primary rings of such a collection closed, in the
  collection it returns and, when it throws, in the collection it leaves behind, every
  Polygon feature of the output of \<open>simplifyGeoJSON\<close> has a closed primary ring. On the
  path through the hard cap the decimation keeps the first point and ends on the original
  last point; on the path through the \<^verbatim>\<open>catch\<close> the output is the input object as the
  library left it.
\<close>

theorem simplifyGeoJSON_closed:
  assumes "polygons_closed geojson"
    and "\<And>simplified. polygons_closed geojson \<Longrightarrow> simplify geojson tolerance = Inr simplified
           \<Longrightarrow> polygons_closed simplified"
    and "\<And>error left. polygons_closed geojson \<Longrightarrow> simplify geojson tolerance = Inl (error, left)
           \<Longrightarrow> polygons_closed left"
  shows "polygons_closed (simplifyGeoJSON simplify geojson tolerance)
    \<and> (\<forall>error left. simplify geojson tolerance = Inl (error, left)
          \<longrightarrow> simplifyGeoJSON simplify geojson tolerance = left)
    \<and> (\<forall>simplified fs. simplify geojson tolerance = Inr simplified \<and> features simplified = Some fs
          \<longrightarrow> simplifyGeoJSON simplify geojson tolerance
              = simplified\<lparr>features := Some (map capFeature fs)\<rparr>)"
proof -
  have paths: "(\<forall>error left. simplify geojson tolerance = Inl (error, left)
          \<longrightarrow> simplifyGeoJSON simplify geojson tolerance = left)
    \<and> (\<forall>simplified fs. simplify geojson tolerance = Inr simplified \<and> features simplified = Some fs
          \<longrightarrow> simplifyGeoJSON simplify geojson tolerance
              = simplified\<lparr>features := Some (map capFeature fs)\<rparr>)"
    by (simp add: simplifyGeoJSON_def)
  have "polygons_closed (simplifyGeoJSON simplify geojson tolerance)"
  proof (cases "simplify geojson tolerance")
    case (Inl thrown)
    obtain error left where t: "thrown = (error, left)" by (cases thrown)
    from assms(3)[OF assms(1)] Inl t have "polygons_closed left" by simp
    with Inl t show ?thesis by (simp add: simplifyGeoJSON_def)
  next
    case (Inr simplified)
    with assms(2)[OF assms(1)] have cl: "polygons_closed simplified" by simp
    have keep: "\<And>f. (case primary_ring f of None \<Rightarrow> True | Some r \<Rightarrow> closed_ring r)
        \<Longrightarrow> (case primary_ring (capFeature f) of None \<Rightarrow> True | Some r \<Rightarrow> closed_ring r)"
      by (auto simp: closed_ring_def reduceCoords_ends
          split: option.splits geometry.splits list.splits if_splits)
    show ?thesis
    proof (cases "features simplified")
      case None
      with Inr cl show ?thesis by (simp add: simplifyGeoJSON_def)
    next
      case (Some fs)
      with cl have "list_all (\<lambda>f. case primary_ring f of None \<Rightarrow> True | Some r \<Rightarrow> closed_ring r) fs"
        by (simp add: polygons_closed_def)
      then have "list_all (\<lambda>f. case primary_ring f of None \<Rightarrow> True | Some r \<Rightarrow> closed_ring r)
          (map capFeature fs)"
        using keep by (simp add: list_all_iff del: capFeature.simps primary_ring.simps)
      with Inr Some show ?thesis
        by (simp add: simplifyGeoJSON_def polygons_closed_def)
    qed
  qed
  with paths show ?thesis by blast
qed

theorem simplifyGeoJSON_closed_witness:
  "polygons_closed zigzag_polygon
   \<and> polygons_closed (simplifyGeoJSON keep_all zigzag_polygon (5 / 1000))
   \<and> primary_ring_at (simplifyGeoJSON keep_all zigzag_polygon (5 / 1000)) 0
       = Some (reduceCoords zigzag)
   \<and> polygons_closed two_features
   \<and> throws_at_second two_features (5 / 1000) = Inl (TypeError, half_rewritten)
   \<and> simplifyGeoJSON throws_at_second two_features (5 / 1000) = half_rewritten
   \<and> polygons_closed (simplifyGeoJSON throws_at_second two_features (5 / 1000))
   \<and> simplifyGeoJSON throws_at_second two_features (5 / 1000) \<noteq> two_features"
proof -
  have h: "polygons_closed zigzag_polygon"
    by (simp add: polygons_closed_def zigzag_polygon_def zigzag_closed)
  have "polygons_closed (simplifyGeoJSON keep_all zigzag_polygon (5 / 1000))"
    using h simplifyGeoJSON_closed[of zigzag_polygon keep_all "5 / 1000"]
    by (simp add: keep_all_def)
  moreover have "primary_ring_at (simplifyGeoJSON keep_all zigzag_polygon (5 / 1000)) 0
       = Some (reduceCoords zigzag)"
    by (simp add: simplifyGeoJSON_def keep_all_def zigzag_polygon_def primary_ring_at_def
        zigzag_length)
  moreover have k: "polygons_closed two_features"
    by (simp add: polygons_closed_def two_features_def kite_def closed_ring_def)
  moreover have t: "throws_at_second two_features (5 / 1000) = Inl (TypeError, half_rewritten)"
    by (simp add: throws_at_second_def)
  moreover have l: "polygons_closed half_rewritten"
    by (simp add: polygons_closed_def half_rewritten_def closed_ring_def)
  have "polygons_closed (simplifyGeoJSON throws_at_second two_features (5 / 1000))
      \<and> simplifyGeoJSON throws_at_second two_features (5 / 1000) = half_rewritten"
    using k l simplifyGeoJSON_closed[of two_features throws_at_second "5 / 1000"]
    by (simp add: throws_at_second_def)
  moreover have "half_rewritten \<noteq> two_features"
    by (simp add: half_rewritten_def two_features_def kite_def)
  ultimately show ?thesis using h l by simp
qed

text \<open>
  C2, as stated, fails: the hard cap is applied to the primary ring of a feature of type
  Polygon only. A ring of a MultiPolygon feature that the library returns with 102 points
  leaves \<open>simplifyGeoJSON\<close> with its 102 points.
\<close>

theorem simplifyGeoJSON_hard_cap_counterexample:
  "simplifyGeoJSON keep_all zigzag_multipolygon (5 / 1000) = zigzag_multipolygon
   \<and> features zigzag_multipolygon
       = Some [\<lparr>properties = None, geometry = Some (MultiPolygon [[zigzag]])\<rparr>]
   \<and> length zigzag = 102 \<and> \<not> length zigzag \<le> 100"
  by (simp add: simplifyGeoJSON_def keep_all_def zigzag_multipolygon_def zigzag_length)

text \<open>
  C2, amended. For every Polygon feature of the collection the library returns whose
  primary ring has more than 100 points, the primary ring of that feature in the output
  is the stride decimation of it: the points at the indices that are multiples of
  \<open>k = ceil(length / 50)\<close>, followed by the original last point unless the last point kept
  is that very point. It has at most 51 points, hence at most 100, and it starts and
  ends on the first and last points of the ring it replaces.
\<close>

theorem simplifyGeoJSON_hard_cap:
  assumes "simplify geojson tolerance = Inr simplified"
    and "primary_ring_at simplified i = Some coords"
    and "length coords > 100"
  shows "primary_ring_at (simplifyGeoJSON simplify geojson tolerance) i = Some (reduceCoords coords)
    \<and> length (reduceCoords coords) \<le> 51 \<and> length (reduceCoords coords) \<le> 100
    \<and> reduceCoords coords =
        (let kept = nths coords {j. j mod nat \<lceil>real (length coords) / 50\<rceil> = 0}
         in if last kept = last coords then kept else kept @ [last coords])
    \<and> hd (reduceCoords coords) = hd coords \<and> last (reduceCoords coords) = last coords"
proof -
  from assms(2) obtain fs where fs: "features simplified = Some fs" "i < length fs"
    "primary_ring (fs ! i) = Some coords"
    by (auto simp: primary_ring_at_def split: option.splits if_splits)
  from fs(3) assms(3) have "primary_ring (capFeature (fs ! i)) = Some (reduceCoords coords)"
    by (auto split: option.splits geometry.splits list.splits)
  with fs assms(1)
  have out: "primary_ring_at (simplifyGeoJSON simplify geojson tolerance) i
      = Some (reduceCoords coords)"
    by (simp add: simplifyGeoJSON_def primary_ring_at_def del: capFeature.simps primary_ring.simps)
  from assms(3) have ne: "coords \<noteq> []" by auto
  have len: "length (reduceCoords coords) \<le> 51" by (rule reduceCoords_length)
  have shape: "reduceCoords coords =
        (let kept = nths coords {j. j mod nat \<lceil>real (length coords) / 50\<rceil> = 0}
         in if last kept = last coords then kept else kept @ [last coords])"
    using stride_keeps_head[OF ne, of "nat \<lceil>real (length coords) / 50\<rceil>"]
    by (auto simp: reduceCoords_def Let_def filter_index_nths)
  from out len shape reduceCoords_ends[OF ne] show ?thesis by simp
qed

theorem simplifyGeoJSON_hard_cap_witness:
  "primary_ring_at (simplifyGeoJSON keep_all zigzag_polygon (5 / 1000)) 0
     = Some (reduceCoords zigzag)
   \<and> length zigzag = 102
   \<and> length (reduceCoords zigzag) \<le> 100
   \<and> map ident (reduceCoords zigzag) = map (\<lambda>j. 3 * j) [0..<34] @ [101]"
proof -
  have a: "keep_all zigzag_polygon (5 / 1000) = Inr zigzag_polygon"
    by (simp add: keep_all_def)
  have b: "primary_ring_at zigzag_polygon 0 = Some zigzag"
    by (simp add: primary_ring_at_def zigzag_polygon_def)
  have c: "length zigzag > 100"
    by (simp add: zigzag_length)
  have d: "map ident (reduceCoords zigzag) = map (\<lambda>j. 3 * j) [0..<34] @ [101]"
    by code_simp
  note t = simplifyGeoJSON_hard_cap[of keep_all zigzag_polygon "5 / 1000", OF a b c]
  from t have e: "primary_ring_at (simplifyGeoJSON keep_all zigzag_polygon (5 / 1000)) 0
     = Some (reduceCoords zigzag)" by (rule conjunct1)
  from t have f: "length (reduceCoords zigzag) \<le> 100" by blast
  from e f d zigzag_length show ?thesis by blast
qed

section \<open>Double-precision arithmetic\<close>

text \<open>
  The numbers of the runtime are IEEE 754 binary64 values: the finite ones, each the real
  it denotes (\<open>Num 0\<close> is the zero of positive sign), the zero of negative sign, the two
  infinities and \<^verbatim>\<open>NaN\<close>.
\<close>

datatype double = Num real | NegZero | PosInfinity | NegInfinity | NaN

definition pow2 :: "int \<Rightarrow> real" where
  "pow2 e = (if 0 \<le> e then 2 ^ nat e else 1 / 2 ^ nat (- e))"

text \<open>
  The binary exponent of a positive real: \<open>m * 2 ^ e\<close> is kept and \<open>m\<close> is brought into
  the interval from 1 to 2. The exponent of a finite double lies between -1022 and 1023;
  below that range the numbers are subnormal and keep the exponent -1022, and a magnitude
  that reaches exponent 1024 overflows.
\<close>

function scaleDown :: "real \<Rightarrow> int \<Rightarrow> real \<times> int" where
  "scaleDown m e = (if 2 \<le> m \<and> e < 1024 then scaleDown (m / 2) (e + 1) else (m, e))"
  by pat_completeness auto
termination
  by (relation "measure (\<lambda>(m, e). nat (1024 - e))") auto

function scaleUp :: "real \<Rightarrow> int \<Rightarrow> real \<times> int" where
  "scaleUp m e = (if m < 1 \<and> - 1022 < e then scaleUp (2 * m) (e - 1) else (m, e))"
  by pat_completeness auto
termination
  by (relation "measure (\<lambda>(m, e). nat (e + 1022))") auto

text \<open>Rounding to the nearest integer, a tie going to the even one.\<close>

definition roundHalfEven :: "real \<Rightarrow> int" where
  "roundHalfEven y =
     (let f = \<lfloor>y\<rfloor>; d = y - of_int f
      in if d < 1 / 2 then f else if 1 / 2 < d then f + 1 else if even f then f else f + 1)"

text \<open>The magnitude of the double nearest to a positive real: 53 significant bits, that is
  a multiple of \<open>2 ^ (e - 52)\<close>.\<close>

definition roundMagnitude :: "real \<Rightarrow> real" where
  "roundMagnitude a =
     (let (m, e) = (if 1 \<le> a then scaleDown a 0 else scaleUp a 0)
      in of_int (roundHalfEven (m * 2 ^ 52)) * pow2 (e - 52))"

definition signedZero :: "bool \<Rightarrow> double" where
  "signedZero negative = (if negative then NegZero else Num 0)"

definition signedInfinity :: "bool \<Rightarrow> double" where
  "signedInfinity negative = (if negative then NegInfinity else PosInfinity)"

text \<open>The double that an exact result other than zero is rounded to: an infinity when the
  rounded magnitude is out of range, a zero of the sign of the result when it underflows.\<close>

definition roundDouble :: "real \<Rightarrow> double" where
  "roundDouble x =
     (let r = roundMagnitude \<bar>x\<bar>
      in if 2 ^ 1024 \<le> r then signedInfinity (x < 0)
         else if r = 0 then signedZero (x < 0)
         else Num (if x < 0 then - r else r))"

fun isNegative :: "double \<Rightarrow> bool" where
  "isNegative (Num x) = (x < 0)"
| "isNegative NegZero = True"
| "isNegative PosInfinity = False"
| "isNegative NegInfinity = True"
| "isNegative NaN = False"

fun isZero :: "double \<Rightarrow> bool" where
  "isZero (Num x) = (x = 0)"
| "isZero NegZero = True"
| "isZero PosInfinity = False"
| "isZero NegInfinity = False"
| "isZero NaN = False"

fun isInfinite :: "double \<Rightarrow> bool" where
  "isInfinite (Num x) = False"
| "isInfinite NegZero = False"
| "isInfinite PosInfinity = True"
| "isInfinite NegInfinity = True"
| "isInfinite NaN = False"

text \<open>The real a finite double denotes.\<close>

fun valueOf :: "double \<Rightarrow> real" where
  "valueOf (Num x) = x"
| "valueOf NegZero = 0"
| "valueOf PosInfinity = 0"
| "valueOf NegInfinity = 0"
| "valueOf NaN = 0"

fun negate :: "double \<Rightarrow> double" where
  "negate (Num x) = (if x = 0 then NegZero else Num (- x))"
| "negate NegZero = Num 0"
| "negate PosInfinity = NegInfinity"
| "negate NegInfinity = PosInfinity"
| "negate NaN = NaN"

text \<open>
  The operators \<^verbatim>\<open>+\<close>, \<^verbatim>\<open>-\<close>, \<^verbatim>\<open>*\<close>, \<^verbatim>\<open>/\<close> and \<^verbatim>\<open><\<close> on numbers. An exact sum of zero has
  the positive sign unless both terms are the negative zero; \<open>a - b\<close> is \<open>a + (-b)\<close>; the sign
  of a product or quotient is the exclusive or of the signs of its operands.
\<close>

definition add_double :: "double \<Rightarrow> double \<Rightarrow> double" where
  "add_double a b =
     (if a = NaN \<or> b = NaN then NaN
      else if isInfinite a \<and> isInfinite b then (if a = b then a else NaN)
      else if isInfinite a then a
      else if isInfinite b then b
      else if valueOf a + valueOf b = 0 then signedZero (a = NegZero \<and> b = NegZero)
      else roundDouble (valueOf a + valueOf b))"

definition sub_double :: "double \<Rightarrow> double \<Rightarrow> double" where
  "sub_double a b = add_double a (negate b)"

definition mul_double :: "double \<Rightarrow> double \<Rightarrow> double" where
  "mul_double a b =
     (if a = NaN \<or> b = NaN then NaN
      else if (isInfinite a \<and> isZero b) \<or> (isZero a \<and> isInfinite b) then NaN
      else if isInfinite a \<or> isInfinite b then signedInfinity (isNegative a \<noteq> isNegative b)
      else if isZero a \<or> isZero b then signedZero (isNegative a \<noteq> isNegative b)
      else roundDouble (valueOf a * valueOf b))"

definition div_double :: "double \<Rightarrow> double \<Rightarrow> double" where
  "div_double a b =
     (if a = NaN \<or> b = NaN then NaN
      else if (isInfinite a \<and> isInfinite b) \<or> (isZero a \<and> isZero b) then NaN
      else if isInfinite a \<or> isZero b then signedInfinity (isNegative a \<noteq> isNegative b)
      else if isZero a \<or> isInfinite b then signedZero (isNegative a \<noteq> isNegative b)
      else roundDouble (valueOf a / valueOf b))"

definition less_double :: "double \<Rightarrow> double \<Rightarrow> bool" where
  "less_double a b =
     (if a = NaN \<or> b = NaN then False
      else if a = PosInfinity \<or> b = NegInfinity then False
      else if a = NegInfinity \<or> b = PosInfinity then True
      else valueOf a < valueOf b)"

text \<open>A real is a double when rounding leaves it as it is.\<close>

definition is_double :: "real \<Rightarrow> bool" where
  "is_double x = (x = 0 \<or> roundDouble x = Num x)"

section \<open>Geometry primitives (geoUtils.js)\<close>

record point =
  latitude :: real
  longitude :: real

text \<open>
  The \<^verbatim>\<open>for\<close> loop of \<open>isPointInPolygon\<close>, with its two counters and the flag: \<open>j\<close> trails
  \<open>i\<close> by one step. Both indices are in range whenever the body runs. The two comparisons
  with the latitude are between finite numbers and so exact; the crossing longitude is
  computed in double precision, each of its four operations rounding its result. The
  right operand of \<^verbatim>\<open>&&\<close> has a value and no effect, so that evaluating it or not makes
  no difference.
\<close>

function inPolygonLoop :: "real \<Rightarrow> real \<Rightarrow> ring \<Rightarrow> nat \<Rightarrow> nat \<Rightarrow> bool \<Rightarrow> bool" where
  "inPolygonLoop plat plng polygon i j inside =
     (if i < length polygon
      then let xi = lng (polygon ! i); yi = lat (polygon ! i);
               xj = lng (polygon ! j); yj = lat (polygon ! j)
           in inPolygonLoop plat plng polygon (i + 1) i
                (if ((yi > plat) \<noteq> (yj > plat))
                    \<and> less_double (Num plng)
                         (add_double
                            (div_double
                               (mul_double (sub_double (Num xj) (Num xi))
                                           (sub_double (Num plat) (Num yi)))
                               (sub_double (Num yj) (Num yi)))
                            (Num xi))
                 then \<not> inside else inside)
      else inside)"
  by pat_completeness auto
termination
  by (relation "measure (\<lambda>(plat, plng, polygon, i, j, inside). length polygon - i)") auto

definition isPointInPolygon :: "point \<Rightarrow> ring \<Rightarrow> bool" where
  "isPointInPolygon p polygon =
     inPolygonLoop (latitude p) (longitude p) polygon 0 (length polygon - 1) False"

subsection \<open>The crossing test, edge by edge\<close>

text \<open>The edges of a ring, each from a point to the next one.\<close>

definition edges :: "ring \<Rightarrow> (coord \<times> coord) list" where
  "edges r = zip r (tl r)"

text \<open>
  The test the loop makes on one edge, from the previous point \<open>a\<close> (index \<open>j\<close>) to the
  current point \<open>b\<close> (index \<open>i\<close>): whether the edge straddles the latitude, and the
  longitude at which it crosses that latitude, as the loop computes it and as it is.
\<close>

definition straddling :: "coord \<Rightarrow> coord \<Rightarrow> real \<Rightarrow> bool" where
  "straddling a b plat = ((lat b > plat) \<noteq> (lat a > plat))"

definition computed_crossing :: "coord \<Rightarrow> coord \<Rightarrow> real \<Rightarrow> double" where
  "computed_crossing a b plat =
     add_double
       (div_double
          (mul_double (sub_double (Num (lng a)) (Num (lng b)))
                      (sub_double (Num plat) (Num (lat b))))
          (sub_double (Num (lat a)) (Num (lat b))))
       (Num (lng b))"

definition exact_crossing :: "coord \<Rightarrow> coord \<Rightarrow> real \<Rightarrow> real" where
  "exact_crossing a b plat = (lng a - lng b) * (plat - lat b) / (lat a - lat b) + lng b"

definition toggles :: "real \<Rightarrow> real \<Rightarrow> coord \<times> coord \<Rightarrow> bool" where
  "toggles plat plng e =
     (case e of (a, b) \<Rightarrow>
        straddling a b plat \<and> less_double (Num plng) (computed_crossing a b plat))"

subsection \<open>The search for the ward of a point\<close>





subsection \<open>Sample data\<close>

definition square :: "real \<Rightarrow> real \<Rightarrow> ring" where
  "square lo hi =
     [\<lparr>ident = 0, lng = lo, lat = lo\<rparr>, \<lparr>ident = 1, lng = hi, lat = lo\<rparr>,
      \<lparr>ident = 2, lng = hi, lat = hi\<rparr>, \<lparr>ident = 3, lng = lo, lat = hi\<rparr>,
      \<lparr>ident = 4, lng = lo, lat = lo\<rparr>]"

definition ward_a :: feature where
  "ward_a = \<lparr>properties = Some [(''id'', JStr ''A'')], geometry = Some (Polygon [square 0 4])\<rparr>"

definition ward_b :: feature where
  "ward_b = \<lparr>properties = Some [(''id'', JStr ''B'')],
             geometry = Some (MultiPolygon [[square 10 12], [square 1 3]])\<rparr>"

definition ward_c :: feature where
  "ward_c = \<lparr>properties = Some [(''id'', JStr ''C'')], geometry = Some (Polygon [square 20 30])\<rparr>"


definition centre :: point where
  "centre = \<lparr>latitude = 2, longitude = 2\<rparr>"

subsection \<open>Containment\<close>



section \<open>Spatial filter (geoUtils.js)\<close>

record bounds =
  northEast :: point
  southWest :: point

definition isPointInBounds :: "point option \<Rightarrow> bounds option \<Rightarrow> bool" where
  "isPointInBounds p b =
     (case b of
        None \<Rightarrow> True
      | Some bs \<Rightarrow>
          (case p of
             None \<Rightarrow> True
           | Some pt \<Rightarrow>
               latitude pt \<ge> latitude (southWest bs) \<and>
               latitude pt \<le> latitude (northEast bs) \<and>
               longitude pt \<ge> longitude (southWest bs) \<and>
               longitude pt \<le> longitude (northEast bs)))"

text \<open>The object literal \<^verbatim>\<open>expandedBounds\<close>.\<close>

definition expandedBounds :: "bounds \<Rightarrow> bounds" where
  "expandedBounds b =
     \<lparr>northEast = \<lparr>latitude = latitude (northEast b) + 1 / 100,
                   longitude = longitude (northEast b) + 1 / 100\<rparr>,
      southWest = \<lparr>latitude = latitude (southWest b) - 1 / 100,
                   longitude = longitude (southWest b) - 1 / 100\<rparr>\<rparr>"

text \<open>
  The part of the filter callback after the stride-skip. For a Polygon,
  \<^verbatim>\<open>coordinates[0] || []\<close> is the primary ring, or the empty array when there is no ring.
  For a MultiPolygon, \<^verbatim>\<open>coordinates[0]\<close> is a polygon, so \<^verbatim>\<open>coord\<close> ranges over its rings
  and \<^verbatim>\<open>coord[1]\<close>, \<^verbatim>\<open>coord[0]\<close> are coordinate pairs (or \<^verbatim>\<open>undefined\<close>): compared with a
  number they convert to \<^verbatim>\<open>NaN\<close>, every comparison is false, and no ring passes.
\<close>

definition featureInBounds :: "bounds \<Rightarrow> feature \<Rightarrow> bool" where
  "featureInBounds eb feature =
     (case geometry feature of
        None \<Rightarrow> False
      | Some (Polygon rings) \<Rightarrow>
          list_ex (\<lambda>coord. isPointInBounds (Some \<lparr>latitude = lat coord, longitude = lng coord\<rparr>)
                     (Some eb))
            (case rings of [] \<Rightarrow> [] | coordinates # _ \<Rightarrow> coordinates)
      | Some (MultiPolygon polygons) \<Rightarrow> False)"

definition filterGeoJSONByBounds :: "geojson option \<Rightarrow> bounds option \<Rightarrow> geojson option" where
  "filterGeoJSONByBounds geojson b =
     (case b of
        None \<Rightarrow> geojson
      | Some bs \<Rightarrow>
          (case geojson of
             None \<Rightarrow> geojson
           | Some g \<Rightarrow>
               (case features g of
                  None \<Rightarrow> geojson
                | Some fs \<Rightarrow>
                    Some (g\<lparr>features := Some (filter_index
                      (\<lambda>feature index.
                         if index mod 2 \<noteq> 0 \<and> length fs > 50 then False
                         else featureInBounds (expandedBounds bs) feature) fs)\<rparr>))))"

section \<open>Boundary store (the hook useGeoJSON)\<close>

text \<open>
  The memoised \<open>filteredGeoJSON\<close>, a function of the state \<open>geoJsonData\<close> and of the
  argument \<open>mapBounds\<close>. \<^verbatim>\<open>features.slice\<close> on a collection without \<open>features\<close> throws.
\<close>

definition filteredGeoJSON :: "geojson option \<Rightarrow> bounds option \<Rightarrow> js_error + geojson option" where
  "filteredGeoJSON geoJsonData mapBounds =
     (case geoJsonData of
        None \<Rightarrow> Inr None
      | Some g \<Rightarrow>
          (case mapBounds of
             None \<Rightarrow>
               (case features g of
                  None \<Rightarrow> Inl TypeError
                | Some fs \<Rightarrow> Inr (Some (g\<lparr>features := Some (take 50 fs)\<rparr>)))
           | Some b \<Rightarrow>
               (case filterGeoJSONByBounds (Some g) (Some b) of
                  None \<Rightarrow> Inl TypeError
                | Some filtered \<Rightarrow>
                    (case features filtered of
                       None \<Rightarrow> Inl TypeError
                     | Some fs \<Rightarrow> Inr (Some (filtered\<lparr>features := Some (take 100 fs)\<rparr>))))))"

text \<open>\<^verbatim>\<open>totalFeatures: geoJsonData?.features?.length || 0\<close>\<close>

definition totalFeatures :: "geojson option \<Rightarrow> nat" where
  "totalFeatures geoJsonData =
     (case geoJsonData of
        None \<Rightarrow> 0
      | Some g \<Rightarrow> (case features g of None \<Rightarrow> 0 | Some fs \<Rightarrow> length fs))"

text \<open>What the cache holds under its key: the collection and the time it was written.\<close>

record cache_data =
  data :: geojson
  timestamp :: int

text \<open>The outcome of a \<^verbatim>\<open>fetch\<close>: the promise rejects, or it resolves to a response with
  its \<open>ok\<close> flag, its status and its body. The body is \<open>None\<close> when reading it throws
  (\<^verbatim>\<open>response.json()\<close> rejects, or the payload of the API has no \<^verbatim>\<open>data\<close> member to read
  \<^verbatim>\<open>geojson\<close> from).\<close>

datatype response = Rejected | Response bool nat "geojson option"

text \<open>
  The collaborators of the hook, which are not code of this repository: the two sources
  (what the API of the backend and the static file answer during this load), the clock
  (\<^verbatim>\<open>Date.now()\<close> when the cache is read and when it is written), JSON, and the
  simplification library. \<open>json_parse\<close> is \<^verbatim>\<open>JSON.parse\<close> followed by the destructuring of
  \<open>data\<close> and \<open>timestamp\<close>, \<open>None\<close> when that throws.
\<close>

record env =
  api_fetch :: response
  github_fetch :: response
  now_read :: int
  now_write :: int
  json_parse :: "string \<Rightarrow> cache_data option"
  json_stringify :: "cache_data \<Rightarrow> string"
  simplify_lib :: simplifier

text \<open>
  The state of the hook (the four \<^verbatim>\<open>useState\<close> cells) together with the item AsyncStorage
  holds under \<^verbatim>\<open>GEOJSON_CACHE_KEY\<close>. AsyncStorage serves its requests in the order they are
  issued, and its operations are modelled as succeeding.
\<close>

record hook =
  geoJsonData :: "geojson option"
  loading :: bool
  error :: "js_error option"
  dataSource :: string
  item :: "string option"

text \<open>\<open>getCachedGeoJSON\<close> returns the collection or \<^verbatim>\<open>null\<close>, and the item it leaves in the
  storage. \<^verbatim>\<open>!cached\<close> holds of \<^verbatim>\<open>null\<close> and of the empty string.\<close>

definition getCachedGeoJSON :: "env \<Rightarrow> string option \<Rightarrow> geojson option \<times> string option" where
  "getCachedGeoJSON e stored =
     (case stored of
        None \<Rightarrow> (None, stored)
      | Some cached \<Rightarrow>
          if cached = [] then (None, stored)
          else (case json_parse e cached of
                  None \<Rightarrow> (None, stored)
                | Some c \<Rightarrow>
                    let cacheAge = real_of_int (now_read e - timestamp c) / (1000 * 60 * 60)
                    in if cacheAge > 2 then (None, None) else (Some (data c), stored)))"

definition cacheGeoJSON :: "env \<Rightarrow> geojson \<Rightarrow> string option" where
  "cacheGeoJSON e d = Some (json_stringify e \<lparr>data = d, timestamp = now_write e\<rparr>)"

text \<open>The two nested \<^verbatim>\<open>try\<close> blocks around the fetches: the collection and the name passed
  to \<open>setDataSource\<close>, or the error that reaches the outer \<^verbatim>\<open>catch\<close>.\<close>

definition fetchRawGeoJSON :: "env \<Rightarrow> js_error + (string \<times> geojson)" where
  "fetchRawGeoJSON e =
     (case api_fetch e of
        Response True _ (Some rawGeoJSON) \<Rightarrow> Inr (''api'', rawGeoJSON)
      | _ \<Rightarrow>
          (case github_fetch e of
             Rejected \<Rightarrow> Inl NetworkError
           | Response ok status body \<Rightarrow>
               if \<not> ok then Inl (HttpError status)
               else (case body of
                       None \<Rightarrow> Inl SyntaxError
                     | Some rawGeoJSON \<Rightarrow> Inr (''github'', rawGeoJSON))))"

text \<open>\<^verbatim>\<open>a || b\<close> on property values, and \<^verbatim>\<open>feature.properties?.key\<close>.\<close>

fun truthy :: "jsval \<Rightarrow> bool" where
  "truthy JUndefined = False"
| "truthy JNull = False"
| "truthy (JBool b) = b"
| "truthy (JNum n) = (n \<noteq> 0)"
| "truthy (JStr s) = (s \<noteq> [])"

definition js_or :: "jsval \<Rightarrow> jsval \<Rightarrow> jsval" where
  "js_or a b = (if truthy a then a else b)"

definition readProp :: "props option \<Rightarrow> string \<Rightarrow> jsval" where
  "readProp ps k =
     (case ps of
        None \<Rightarrow> JUndefined
      | Some kvs \<Rightarrow> (case map_of kvs k of None \<Rightarrow> JUndefined | Some v \<Rightarrow> v))"

text \<open>The property-pruning step: the callback of \<^verbatim>\<open>simplifiedGeoJSON.features.map\<close>.\<close>

definition optimizeFeature :: "feature \<Rightarrow> feature" where
  "optimizeFeature feature =
     \<lparr>properties = Some
        [(''id'', js_or (readProp (properties feature) ''id'') (readProp (properties feature) ''WARD_ID'')),
         (''name'', js_or (readProp (properties feature) ''name'') (readProp (properties feature) ''WARD_NAME'')),
         (''municipality'', js_or (readProp (properties feature) ''municipality'')
                             (readProp (properties feature) ''MUNICIPALITY''))],
      geometry = geometry feature\<rparr>"

definition loadGeoJSON :: "env \<Rightarrow> real \<Rightarrow> hook \<Rightarrow> hook" where
  "loadGeoJSON e simplificationTolerance h0 =
     (let h1 = h0\<lparr>loading := True, error := None\<rparr>;
          (cachedData, stored) = getCachedGeoJSON e (item h1);
          h2 = h1\<lparr>item := stored\<rparr>
      in case cachedData of
           Some d \<Rightarrow> h2\<lparr>dataSource := ''cache'', geoJsonData := Some d, loading := False\<rparr>
         | None \<Rightarrow>
             (case fetchRawGeoJSON e of
                Inl err \<Rightarrow> h2\<lparr>error := Some err, loading := False\<rparr>
              | Inr (source, rawGeoJSON) \<Rightarrow>
                  let h3 = h2\<lparr>dataSource := source\<rparr>;
                      simplifiedGeoJSON =
                        simplifyGeoJSON (simplify_lib e) rawGeoJSON simplificationTolerance
                  in (case features simplifiedGeoJSON of
                        None \<Rightarrow> h3\<lparr>error := Some TypeError, loading := False\<rparr>
                      | Some fs \<Rightarrow>
                          let optimizedGeoJSON =
                                simplifiedGeoJSON\<lparr>features := Some (map optimizeFeature fs)\<rparr>;
                              h4 = h3\<lparr>item := cacheGeoJSON e optimizedGeoJSON\<rparr>
                          in h4\<lparr>geoJsonData := Some optimizedGeoJSON, loading := False\<rparr>)))"

text \<open>What the hook returns to its caller in a given state, for the \<open>mapBounds\<close> it was
  called with.\<close>

record hook_return =
  ret_geoJsonData :: "geojson option"
  ret_loading :: bool
  ret_error :: "js_error option"
  ret_dataSource :: string
  ret_totalFeatures :: nat

definition useGeoJSON :: "bounds option \<Rightarrow> hook \<Rightarrow> js_error + hook_return" where
  "useGeoJSON mapBounds h =
     (case filteredGeoJSON (geoJsonData h) mapBounds of
        Inl err \<Rightarrow> Inl err
      | Inr shown \<Rightarrow>
          Inr \<lparr>ret_geoJsonData = shown, ret_loading = loading h, ret_error = error h,
               ret_dataSource = dataSource h, ret_totalFeatures = totalFeatures (geoJsonData h)\<rparr>)"

text \<open>\<open>refreshGeoJSON\<close>: the removal is issued first, then the load.\<close>

definition refreshGeoJSON :: "env \<Rightarrow> real \<Rightarrow> hook \<Rightarrow> hook" where
  "refreshGeoJSON e simplificationTolerance h =
     loadGeoJSON e simplificationTolerance (h\<lparr>item := None\<rparr>)"

subsection \<open>Sample data\<close>

definition sixty :: "feature list" where
  "sixty = map (\<lambda>i. \<lparr>properties = Some [(''id'', JNum (real i))],
                       geometry = Some (Polygon [square (real i) (real i + 1)])\<rparr>) [0..<60]"

definition viewport :: bounds where
  "viewport = \<lparr>northEast = \<lparr>latitude = 100, longitude = 100\<rparr>,
               southWest = \<lparr>latitude = 0, longitude = 0\<rparr>\<rparr>"

definition sample_env :: env where
  "sample_env =
     \<lparr>api_fetch = Response False 503 None,
      github_fetch = Response True 200 (Some \<lparr>features = Some [ward_a, ward_c]\<rparr>),
      now_read = 10000000, now_write = 10000500,
      json_parse = (\<lambda>s. if s = ''fresh'' then Some \<lparr>data = \<lparr>features = Some [ward_b]\<rparr>, timestamp = 9000000\<rparr>
                        else if s = ''stale'' then Some \<lparr>data = \<lparr>features = Some [ward_b]\<rparr>, timestamp = 1000000\<rparr>
                        else None),
      json_stringify = (\<lambda>c. ''written''),
      simplify_lib = keep_all\<rparr>"

text \<open>The default of the parameter \<^verbatim>\<open>tolerance = 0.005\<close>.\<close>

definition default_tolerance :: real where
  "default_tolerance = 5 / 1000"

definition idle :: hook where
  "idle = \<lparr>geoJsonData = None, loading = True, error = None, dataSource = ''cache'', item = None\<rparr>"

section \<open>Properties of the geometry primitives, the filter and the store\<close>

text \<open>The equations by which the operations are evaluated on given numbers.\<close>

lemmas double_arith =
  add_double_def sub_double_def mul_double_def div_double_def less_double_def
  roundDouble_def roundMagnitude_def roundHalfEven_def pow2_def signedZero_def
  signedInfinity_def is_double_def Let_def

text \<open>
  Some doubles: the one written \<^verbatim>\<open>0.1\<close>; a tie, which goes to the even neighbour; the
  sum \<^verbatim>\<open>0.1 + 0.2\<close>, which is not the double written \<^verbatim>\<open>0.3\<close>; the signs of zero.
\<close>

lemma roundDouble_examples:
  "roundDouble (1 / 10) = Num (3602879701896397 / 36028797018963968)"
  "roundDouble (2 ^ 53 + 1) = Num (2 ^ 53)"
  "roundDouble (2 ^ 53 + 3) = Num (2 ^ 53 + 4)"
  "add_double (roundDouble (1 / 10)) (roundDouble (2 / 10))
     = Num (1351079888211149 / 4503599627370496)"
  "roundDouble (3 / 10) = Num (5404319552844595 / 18014398509481984)"
  "sub_double (Num 1) (Num 1) = Num 0"
  "mul_double (Num (- 1)) (Num 0) = NegZero"
  "div_double (Num 1) NegZero = NegInfinity"
  "div_double (Num 0) (Num 0) = NaN"
  "\<not> less_double NegZero (Num 0)"
  by (simp_all add: double_arith)

declare inPolygonLoop.simps [simp del]

lemma loop_step:
  "i < length polygon \<Longrightarrow>
   inPolygonLoop plat plng polygon i j inside
     = inPolygonLoop plat plng polygon (i + 1) i
         (if toggles plat plng (polygon ! j, polygon ! i) then \<not> inside else inside)"
  by (subst inPolygonLoop.simps)
    (simp add: toggles_def straddling_def computed_crossing_def Let_def)

lemma loop_done:
  "\<not> i < length polygon \<Longrightarrow> inPolygonLoop plat plng polygon i j inside = inside"
  by (subst inPolygonLoop.simps) simp

lemma loop_parity:
  "inPolygonLoop plat plng poly i j b
     = (b \<noteq> odd (length (filter (toggles plat plng) (zip (poly ! j # drop i poly) (drop i poly)))))"
proof (induction plat plng poly i j b rule: inPolygonLoop.induct)
  case (1 plat plng polygon i j inside)
  show ?case
  proof (cases "i < length polygon")
    case False
    then show ?thesis by (simp add: loop_done)
  next
    case True
    have d: "drop i polygon = polygon ! i # drop (Suc i) polygon"
      using True by (simp add: Cons_nth_drop_Suc)
    let ?t = "toggles plat plng (polygon ! j, polygon ! i)"
    have teq: "(((lat (polygon ! i) > plat) \<noteq> (lat (polygon ! j) > plat))
        \<and> less_double (Num plng)
            (add_double
               (div_double
                  (mul_double (sub_double (Num (lng (polygon ! j))) (Num (lng (polygon ! i))))
                              (sub_double (Num plat) (Num (lat (polygon ! i)))))
                  (sub_double (Num (lat (polygon ! j))) (Num (lat (polygon ! i)))))
               (Num (lng (polygon ! i))))) = ?t"
      by (simp add: toggles_def straddling_def computed_crossing_def)
    have "inPolygonLoop plat plng polygon (i + 1) i (if ?t then \<not> inside else inside)
      = ((if ?t then \<not> inside else inside) \<noteq> odd (length (filter (toggles plat plng)
            (zip (polygon ! i # drop (i + 1) polygon) (drop (i + 1) polygon)))))"
      using "1.IH"[OF True refl refl refl refl] unfolding teq .
    then show ?thesis
      unfolding loop_step[OF True] by (auto simp: d)
  qed
qed

lemma isPointInPolygon_parity:
  assumes "closed_ring r"
  shows "isPointInPolygon p r
       = odd (length (filter (toggles (latitude p) (longitude p)) (edges r)))"
proof -
  from assms obtain x xs where r: "r = x # xs" unfolding closed_ring_def by (cases r) auto
  have "r ! (length r - 1) = last r" using r by (simp add: last_conv_nth)
  then have "isPointInPolygon p r
      = odd (length (filter (toggles (latitude p) (longitude p)) (zip (last r # r) r)))"
    unfolding isPointInPolygon_def loop_parity by simp
  moreover have "zip (last r # r) r = (last r, hd r) # edges r"
    unfolding edges_def r by simp
  moreover have "\<not> toggles (latitude p) (longitude p) (last r, hd r)"
    using assms unfolding closed_ring_def toggles_def straddling_def by simp
  ultimately show ?thesis by simp
qed

text \<open>The equations by which the function is evaluated on a given closed ring.\<close>

lemma toggles_pair:
  "toggles plat plng (a, b)
     = (straddling a b plat \<and> less_double (Num plng) (computed_crossing a b plat))"
  by (simp add: toggles_def)

lemmas crossing_test =
  isPointInPolygon_parity closed_ring_def edges_def toggles_pair straddling_def
  computed_crossing_def double_arith




lemma filter_index_split:
  "filter_index (\<lambda>x i. if P i then False else Q x) xs = filter Q (nths xs {i. \<not> P i})"
proof -
  have "filter_index (\<lambda>x i. if P i then False else Q x) xs
      = map snd (filter (\<lambda>p. \<not> P (fst p) \<and> Q (snd p)) (zip [0..<length xs] xs))"
    by (simp add: filter_index_def case_prod_unfold enumerate_eq_zip cong: conj_cong)
  also have "\<dots> = map fst (filter (\<lambda>p. \<not> P (snd p) \<and> Q (fst p)) (zip xs [0..<length xs]))"
  proof -
    have "zip [0..<length xs] xs = map (\<lambda>(a, b). (b, a)) (zip xs [0..<length xs])"
      by (rule zip_commute)
    then show ?thesis
      by (simp add: filter_map comp_def case_prod_unfold)
  qed
  also have "\<dots> = filter Q (nths xs {i. \<not> P i})"
    by (simp add: nths_def filter_map comp_def conj_commute)
  finally show ?thesis .
qed

lemma length_nths_even: "length (nths xs {i. even i}) = (length xs + 1) div 2"
proof -
  have "length (nths xs {i. even i}) = card {i. i < length xs \<and> even i}"
    by (simp add: length_nths)
  also have "\<dots> = (length xs + 1) div 2"
  proof (induction "length xs" arbitrary: xs)
    case 0
    then show ?case by simp
  next
    case (Suc n)
    then obtain ys y where xs: "xs = ys @ [y]" and n: "n = length ys"
      by (metis length_Suc_conv_rev)
    have "{i. i < length xs \<and> even i} =
        (if even n then insert n {i. i < n \<and> even i} else {i. i < n \<and> even i})"
      using xs n by (auto simp: less_Suc_eq)
    moreover have "n \<notin> {i. i < n \<and> even i}" by simp
    moreover have "finite {i. i < n \<and> even i}" by simp
    ultimately show ?case
      using Suc.hyps(1)[of ys] n xs by (auto elim: evenE oddE)
  qed
  finally show ?thesis .
qed

lemma expired_arith:
  "(real_of_int d / (1000 * 60 * 60) > 2) = (d > 7200000)"
  by (simp add: field_simps)

text \<open>
  C5. A cache entry that parses and is older than two hours is not served: the cache read
  returns \<^verbatim>\<open>null\<close> and removes the item, and the load behaves exactly as it does on an
  empty storage. An entry that does not parse is a miss as well, with no error raised: the
  cache read returns \<^verbatim>\<open>null\<close> (the item stays where it is) and the load ends in the state
  it reaches from an empty storage, the stored item apart.
\<close>

theorem getCachedGeoJSON_expired:
  "(json_parse e cached = Some c \<and> cached \<noteq> [] \<and> now_read e - timestamp c > 2 * 60 * 60 * 1000
    \<longrightarrow> getCachedGeoJSON e (Some cached) = (None, None)
      \<and> loadGeoJSON e tol (h\<lparr>item := Some cached\<rparr>) = loadGeoJSON e tol (h\<lparr>item := None\<rparr>))
   \<and> (json_parse e cached = None
    \<longrightarrow> getCachedGeoJSON e (Some cached) = (None, Some cached)
      \<and> (loadGeoJSON e tol (h\<lparr>item := Some cached\<rparr>))\<lparr>item := None\<rparr>
          = (loadGeoJSON e tol (h\<lparr>item := None\<rparr>))\<lparr>item := None\<rparr>)"
proof -
  have a: "getCachedGeoJSON e (Some cached) = (None, None)"
    if "json_parse e cached = Some c" "cached \<noteq> []" "now_read e - timestamp c > 2 * 60 * 60 * 1000"
    using that by (simp add: getCachedGeoJSON_def Let_def expired_arith)
  have b: "getCachedGeoJSON e (Some cached) = (None, Some cached)"
    if "json_parse e cached = None"
    using that by (simp add: getCachedGeoJSON_def)
  have n: "getCachedGeoJSON e None = (None, None)"
    by (simp add: getCachedGeoJSON_def)
  show ?thesis
    using a b n
    by (auto simp: loadGeoJSON_def Let_def cacheGeoJSON_def split: sum.splits option.splits prod.splits)
qed

theorem getCachedGeoJSON_expired_witness:
  "getCachedGeoJSON sample_env (Some ''stale'') = (None, None)
   \<and> loadGeoJSON sample_env (default_tolerance) (idle\<lparr>item := Some ''stale''\<rparr>)
       = loadGeoJSON sample_env (default_tolerance) (idle\<lparr>item := None\<rparr>)
   \<and> getCachedGeoJSON sample_env (Some ''garbled'') = (None, Some ''garbled'')
   \<and> (loadGeoJSON sample_env (default_tolerance) (idle\<lparr>item := Some ''garbled''\<rparr>))\<lparr>item := None\<rparr>
       = (loadGeoJSON sample_env (default_tolerance) (idle\<lparr>item := None\<rparr>))\<lparr>item := None\<rparr>"
proof -
  have a: "json_parse sample_env ''stale''
             = Some \<lparr>data = \<lparr>features = Some [ward_b]\<rparr>, timestamp = 1000000\<rparr>
           \<and> ''stale'' \<noteq> []
           \<and> now_read sample_env
                - timestamp \<lparr>data = \<lparr>features = Some [ward_b]\<rparr>, timestamp = 1000000\<rparr>
              > 2 * 60 * 60 * 1000"
    by (simp add: sample_env_def)
  have b: "json_parse sample_env ''garbled'' = None"
    by (simp add: sample_env_def)
  from getCachedGeoJSON_expired[where e = sample_env and cached = "''stale''"
      and c = "\<lparr>data = \<lparr>features = Some [ward_b]\<rparr>, timestamp = 1000000\<rparr>"
      and tol = "default_tolerance" and h = idle] a
  have "getCachedGeoJSON sample_env (Some ''stale'') = (None, None)
   \<and> loadGeoJSON sample_env (default_tolerance) (idle\<lparr>item := Some ''stale''\<rparr>)
       = loadGeoJSON sample_env (default_tolerance) (idle\<lparr>item := None\<rparr>)"
    by blast
  moreover from getCachedGeoJSON_expired[where e = sample_env and cached = "''garbled''"
      and tol = "default_tolerance" and h = idle] b
  have "getCachedGeoJSON sample_env (Some ''garbled'') = (None, Some ''garbled'')
   \<and> (loadGeoJSON sample_env (default_tolerance) (idle\<lparr>item := Some ''garbled''\<rparr>))\<lparr>item := None\<rparr>
       = (loadGeoJSON sample_env (default_tolerance) (idle\<lparr>item := None\<rparr>))\<lparr>item := None\<rparr>"
    by blast
  ultimately show ?thesis by blast
qed

text \<open>
  C6. \<open>refreshGeoJSON\<close> removes the item and then runs the load, so its outcome is that of
  a load on an empty storage, whose cache read misses, and it does not depend on the item
  that was stored when it was called. A plain load in front of an entry that parses and is
  at most two hours old takes the cache-hit shortcut and fetches nothing.
\<close>

theorem refreshGeoJSON_bypasses_cache:
  "refreshGeoJSON e tol (h\<lparr>item := stored\<rparr>) = loadGeoJSON e tol (h\<lparr>item := None\<rparr>)
   \<and> refreshGeoJSON e tol (h\<lparr>item := stored\<rparr>) = refreshGeoJSON e tol (h\<lparr>item := stored'\<rparr>)
   \<and> getCachedGeoJSON e None = (None, None)
   \<and> (json_parse e cached = Some c \<and> cached \<noteq> [] \<and> now_read e - timestamp c \<le> 2 * 60 * 60 * 1000
      \<longrightarrow> loadGeoJSON e tol (h\<lparr>item := Some cached\<rparr>)
          = h\<lparr>item := Some cached, loading := False, error := None, dataSource := ''cache'',
              geoJsonData := Some (data c)\<rparr>)"
proof -
  have hit: "getCachedGeoJSON e (Some cached) = (Some (data c), Some cached)"
    if "json_parse e cached = Some c" "cached \<noteq> []" "now_read e - timestamp c \<le> 2 * 60 * 60 * 1000"
    using that by (simp add: getCachedGeoJSON_def Let_def expired_arith)
  have "loadGeoJSON e tol (h\<lparr>item := Some cached\<rparr>)
          = h\<lparr>item := Some cached, loading := False, error := None, dataSource := ''cache'',
              geoJsonData := Some (data c)\<rparr>"
    if "json_parse e cached = Some c" "cached \<noteq> []" "now_read e - timestamp c \<le> 2 * 60 * 60 * 1000"
    using hit[OF that] by (simp add: loadGeoJSON_def)
  then show ?thesis
    by (simp add: refreshGeoJSON_def getCachedGeoJSON_def)
qed

theorem refreshGeoJSON_bypasses_cache_witness:
  "loadGeoJSON sample_env (default_tolerance) (idle\<lparr>item := Some ''fresh''\<rparr>)
     = idle\<lparr>item := Some ''fresh'', loading := False, error := None, dataSource := ''cache'',
           geoJsonData := Some \<lparr>features = Some [ward_b]\<rparr>\<rparr>
   \<and> refreshGeoJSON sample_env (default_tolerance) (idle\<lparr>item := Some ''fresh''\<rparr>)
     = loadGeoJSON sample_env (default_tolerance) (idle\<lparr>item := None\<rparr>)
   \<and> dataSource (refreshGeoJSON sample_env (default_tolerance) (idle\<lparr>item := Some ''fresh''\<rparr>)) = ''github''"
proof -
  have a: "json_parse sample_env ''fresh''
             = Some \<lparr>data = \<lparr>features = Some [ward_b]\<rparr>, timestamp = 9000000\<rparr>
           \<and> ''fresh'' \<noteq> []
           \<and> now_read sample_env
                - timestamp \<lparr>data = \<lparr>features = Some [ward_b]\<rparr>, timestamp = 9000000\<rparr>
              \<le> 2 * 60 * 60 * 1000"
    by (simp add: sample_env_def)
  note t = refreshGeoJSON_bypasses_cache[where e = sample_env and tol = "default_tolerance"
      and h = idle and stored = "Some ''fresh''" and stored' = None and cached = "''fresh''"
      and c = "\<lparr>data = \<lparr>features = Some [ward_b]\<rparr>, timestamp = 9000000\<rparr>"]
  from t a have "loadGeoJSON sample_env (default_tolerance) (idle\<lparr>item := Some ''fresh''\<rparr>)
     = idle\<lparr>item := Some ''fresh'', loading := False, error := None, dataSource := ''cache'',
           geoJsonData := Some \<lparr>features = Some [ward_b]\<rparr>\<rparr>"
    by simp
  moreover from t have r: "refreshGeoJSON sample_env (default_tolerance) (idle\<lparr>item := Some ''fresh''\<rparr>)
     = loadGeoJSON sample_env (default_tolerance) (idle\<lparr>item := None\<rparr>)"
    by blast
  moreover have "dataSource (loadGeoJSON sample_env (default_tolerance) (idle\<lparr>item := None\<rparr>)) = ''github''"
    by (simp add: loadGeoJSON_def getCachedGeoJSON_def fetchRawGeoJSON_def sample_env_def
        simplifyGeoJSON_def keep_all_def Let_def)
  ultimately show ?thesis by simp
qed

text \<open>
  C7. When the cache read misses and the fetch from the API is rejected or answers with a
  response that is not ok, whatever its status and body, the load goes on to the fallback
  file. When that fetch answers ok with a collection, the reported \<open>dataSource\<close> is
  \<^verbatim>\<open>'github'\<close>, not \<^verbatim>\<open>'api'\<close>, and what is written to the cache and set as the data is the
  fetched collection after \<open>simplifyGeoJSON\<close> and after the pruning of the properties (a
  simplified collection without \<open>features\<close> ends the load in a \<^verbatim>\<open>TypeError\<close> instead).
\<close>

theorem loadGeoJSON_fallback:
  assumes "getCachedGeoJSON e (item h) = (None, stored)"
    and "api_fetch e = Rejected \<or> api_fetch e = Response False status body"
    and "github_fetch e = Response True status' (Some rawGeoJSON)"
  shows "fetchRawGeoJSON e = Inr (''github'', rawGeoJSON)
    \<and> dataSource (loadGeoJSON e tol h) = ''github''
    \<and> dataSource (loadGeoJSON e tol h) \<noteq> ''api''
    \<and> (case features (simplifyGeoJSON (simplify_lib e) rawGeoJSON tol) of
          None \<Rightarrow> loadGeoJSON e tol h
            = h\<lparr>loading := False, error := Some TypeError, dataSource := ''github'', item := stored\<rparr>
        | Some fs \<Rightarrow> loadGeoJSON e tol h
            = h\<lparr>loading := False, error := None, dataSource := ''github'',
                geoJsonData := Some ((simplifyGeoJSON (simplify_lib e) rawGeoJSON tol)
                                 \<lparr>features := Some (map optimizeFeature fs)\<rparr>),
                item := Some (json_stringify e
                  \<lparr>data = (simplifyGeoJSON (simplify_lib e) rawGeoJSON tol)
                             \<lparr>features := Some (map optimizeFeature fs)\<rparr>,
                   timestamp = now_write e\<rparr>)\<rparr>)"
proof -
  from assms(2,3) have f: "fetchRawGeoJSON e = Inr (''github'', rawGeoJSON)"
    by (auto simp: fetchRawGeoJSON_def)
  show ?thesis
    using assms(1) f
    by (simp add: loadGeoJSON_def Let_def cacheGeoJSON_def split: option.splits)
qed

theorem loadGeoJSON_fallback_witness:
  "fetchRawGeoJSON sample_env = Inr (''github'', \<lparr>features = Some [ward_a, ward_c]\<rparr>)
   \<and> loadGeoJSON sample_env (default_tolerance) idle
     = idle\<lparr>loading := False, error := None, dataSource := ''github'',
            geoJsonData := Some \<lparr>features = Some [optimizeFeature ward_a, optimizeFeature ward_c]\<rparr>,
            item := Some ''written''\<rparr>"
proof -
  have a: "getCachedGeoJSON sample_env (item idle) = (None, None)"
    by (simp add: getCachedGeoJSON_def idle_def)
  have b: "api_fetch sample_env = Rejected \<or> api_fetch sample_env = Response False 503 None"
    by (simp add: sample_env_def)
  have c: "github_fetch sample_env = Response True 200 (Some \<lparr>features = Some [ward_a, ward_c]\<rparr>)"
    by (simp add: sample_env_def)
  have d: "simplifyGeoJSON (simplify_lib sample_env) \<lparr>features = Some [ward_a, ward_c]\<rparr> (default_tolerance)
      = \<lparr>features = Some [ward_a, ward_c]\<rparr>"
    by (simp add: simplifyGeoJSON_def sample_env_def keep_all_def ward_a_def ward_c_def square_def)
  have e: "json_stringify sample_env x = ''written''" for x
    by (simp add: sample_env_def)
  from loadGeoJSON_fallback[OF a b c, of "default_tolerance"] show ?thesis
    by (simp add: d e)
qed

text \<open>
  C8. On a collection of more than 50 features and with bounds given,
  \<open>filterGeoJSONByBounds\<close> keeps the features at even indices that pass the bounds test
  (some vertex of the primary ring inside the expanded bounds): at most half of the
  features, rounded up, so at most 30 of 60, in the order of the input. The hook exposes
  the first 100 of them, again in the order of the input.
\<close>

theorem filterGeoJSONByBounds_stride:
  assumes "features g = Some fs" and "length fs > 50"
  shows "(let kept = filter (featureInBounds (expandedBounds b)) (nths fs {i. even i})
          in filterGeoJSONByBounds (Some g) (Some b) = Some (g\<lparr>features := Some kept\<rparr>)
           \<and> length kept \<le> (length fs + 1) div 2
           \<and> (length fs = 60 \<longrightarrow> length kept \<le> 30)
           \<and> subseq kept fs
           \<and> filteredGeoJSON (Some g) (Some b) = Inr (Some (g\<lparr>features := Some (take 100 kept)\<rparr>))
           \<and> length (take 100 kept) \<le> 100
           \<and> subseq (take 100 kept) fs)"
proof -
  define kept where "kept = filter (featureInBounds (expandedBounds b)) (nths fs {i. even i})"
  have "{i::nat. \<not> (i mod 2 \<noteq> 0 \<and> 50 < length fs)} = {i. even i}"
    using assms(2) by (auto simp: even_iff_mod_2_eq_zero)
  then have out: "filterGeoJSONByBounds (Some g) (Some b) = Some (g\<lparr>features := Some kept\<rparr>)"
    using assms(1)
      filter_index_split[of "\<lambda>i. i mod 2 \<noteq> 0 \<and> 50 < length fs"
        "featureInBounds (expandedBounds b)" fs]
    by (simp add: filterGeoJSONByBounds_def kept_def)
  have "length kept \<le> length (nths fs {i. even i})"
    unfolding kept_def by (rule length_filter_le)
  then have len: "length kept \<le> (length fs + 1) div 2"
    by (simp add: length_nths_even)
  have sub: "subseq kept fs"
  proof -
    have "subseq (nths fs {i. even i}) fs"
      by (auto simp: subseq_conv_nths)
    then show ?thesis
      unfolding kept_def by (rule subseq_order.trans[OF subseq_filter_left])
  qed
  have sub': "subseq (take 100 kept) fs"
    by (rule subseq_order.trans[OF _ sub]) (rule sublist_imp_subseq, rule sublist_take)
  have exposed: "filteredGeoJSON (Some g) (Some b) = Inr (Some (g\<lparr>features := Some (take 100 kept)\<rparr>))"
    using out by (simp add: filteredGeoJSON_def)
  from out len sub sub' exposed show ?thesis
    unfolding kept_def[symmetric] Let_def by auto
qed

lemma sixty_length: "length sixty = 60"
  by (simp add: sixty_def)

theorem filterGeoJSONByBounds_stride_witness:
  "length sixty = 60
   \<and> (let kept = filter (featureInBounds (expandedBounds viewport)) (nths sixty {i. even i})
      in filterGeoJSONByBounds (Some \<lparr>features = Some sixty\<rparr>) (Some viewport)
           = Some \<lparr>features = Some kept\<rparr>
         \<and> length kept \<le> 30
         \<and> filteredGeoJSON (Some \<lparr>features = Some sixty\<rparr>) (Some viewport)
           = Inr (Some \<lparr>features = Some (take 100 kept)\<rparr>))"
proof -
  have a: "features \<lparr>features = Some sixty\<rparr> = Some sixty" by simp
  have b: "length sixty > 50" by (simp add: sixty_length)
  from filterGeoJSONByBounds_stride[OF a b, of viewport] show ?thesis
    by (simp add: Let_def sixty_length)
qed

text \<open>
  C10. Without \<open>mapBounds\<close>, the collection the hook returns holds the first 50 features
  of the loaded collection, while \<open>totalFeatures\<close> is the number of features of the whole
  loaded collection.
\<close>

theorem filteredGeoJSON_no_bounds:
  assumes "geoJsonData h = Some g" and "features g = Some fs"
  shows "useGeoJSON None h
      = Inr \<lparr>ret_geoJsonData = Some (g\<lparr>features := Some (take 50 fs)\<rparr>),
             ret_loading = loading h, ret_error = error h, ret_dataSource = dataSource h,
             ret_totalFeatures = length fs\<rparr>
    \<and> filteredGeoJSON (Some g) None = Inr (Some (g\<lparr>features := Some (take 50 fs)\<rparr>))
    \<and> length (take 50 fs) = min 50 (length fs)
    \<and> totalFeatures (Some g) = length fs"
  using assms by (simp add: useGeoJSON_def filteredGeoJSON_def totalFeatures_def min.commute)

theorem filteredGeoJSON_no_bounds_witness:
  "useGeoJSON None (idle\<lparr>geoJsonData := Some \<lparr>features = Some sixty\<rparr>\<rparr>)
      = Inr \<lparr>ret_geoJsonData = Some \<lparr>features = Some (take 50 sixty)\<rparr>,
             ret_loading = True, ret_error = None, ret_dataSource = ''cache'',
             ret_totalFeatures = 60\<rparr>
   \<and> length (take 50 sixty) = 50"
proof -
  have a: "geoJsonData (idle\<lparr>geoJsonData := Some \<lparr>features = Some sixty\<rparr>\<rparr>)
      = Some \<lparr>features = Some sixty\<rparr>" by simp
  have b: "features \<lparr>features = Some sixty\<rparr> = Some sixty" by simp
  from filteredGeoJSON_no_bounds[OF a b] show ?thesis
    by (simp add: sixty_length idle_def)
qed








section \<open>Ingestion (the route POST /import of the wards router)\<close>

text \<open>A row of the table \<open>wards\<close>, as the route builds it.\<close>

record ward =
  ward_id :: string
  ward_name :: jsval
  ward_municipality_id :: "string option"
  ward_geojson :: "geometry option"
  ward_properties :: props

text \<open>The body of the request; \<open>simplify_tolerance\<close> is \<open>None\<close> when the body leaves it out
  (the destructuring then takes 0.001).\<close>

record import_request =
  geojson_url :: "string option"
  municipality_id :: "string option"
  simplify_tolerance :: "real option"

text \<open>What the route answers: status 400 with a message, status 500, or the success
  payload with \<open>imported_count\<close> and \<open>total_features\<close>.\<close>

datatype http_response = BadRequest string | InternalServerError | ImportSuccess nat nat

text \<open>\<^verbatim>\<open>wardId.toString()\<close> and \<^verbatim>\<open>`${wardId}`\<close>; how the runtime prints a number is a
  parameter.\<close>

fun toString :: "(real \<Rightarrow> string) \<Rightarrow> jsval \<Rightarrow> string" where
  "toString num (JStr s) = s"
| "toString num (JNum n) = num n"
| "toString num (JBool b) = (if b then ''true'' else ''false'')"
| "toString num JNull = ''null''"
| "toString num JUndefined = ''undefined''"

text \<open>\<^verbatim>\<open>properties.id || properties.WARD_ID || properties.ward_id\<close>, with
  \<^verbatim>\<open>feature.properties || {}\<close> for the properties.\<close>

definition wardIdOf :: "feature \<Rightarrow> jsval" where
  "wardIdOf feature =
     js_or (js_or (readProp (properties feature) ''id'') (readProp (properties feature) ''WARD_ID''))
           (readProp (properties feature) ''ward_id'')"

text \<open>The coarse decimation of the route. On an empty ring both last elements are
  \<^verbatim>\<open>undefined\<close> and nothing is appended.\<close>

definition decimate :: "real \<Rightarrow> ring \<Rightarrow> ring" where
  "decimate tolerance coords =
     (let step = max 1 (nat \<lfloor>real (length coords) * tolerance\<rfloor>);
          simplified = filter_index (\<lambda>_ index. index mod step = 0) coords
      in if coords = [] then simplified
         else if simplified = [] \<or> last simplified \<noteq> last coords
         then simplified @ [last coords]
         else simplified)"

text \<open>\<open>simplifiedGeometry\<close>: \<^verbatim>\<open>coords.length\<close> throws when a Polygon has no ring.\<close>

definition simplifiedGeometry :: "real \<Rightarrow> geometry option \<Rightarrow> js_error + geometry option" where
  "simplifiedGeometry tolerance geom =
     (case geom of
        Some (Polygon rings) \<Rightarrow>
          if tolerance > 0
          then (case rings of
                  [] \<Rightarrow> Inl TypeError
                | coords # _ \<Rightarrow> Inr (Some (Polygon [decimate tolerance coords])))
          else Inr geom
      | _ \<Rightarrow> Inr geom)"

text \<open>One turn of the loop over the features: \<open>Inr None\<close> when the feature is skipped.\<close>

definition toWard ::
  "(real \<Rightarrow> string) \<Rightarrow> string option \<Rightarrow> real \<Rightarrow> feature \<Rightarrow> js_error + ward option" where
  "toWard num municipality tolerance feature =
     (let props = (case properties feature of None \<Rightarrow> [] | Some kvs \<Rightarrow> kvs);
          wardId = wardIdOf feature;
          wardName = js_or (js_or (readProp (properties feature) ''name'')
                                  (readProp (properties feature) ''WARD_NAME''))
                           (JStr (''Ward '' @ toString num wardId))
      in if \<not> truthy wardId then Inr None
         else (case simplifiedGeometry tolerance (geometry feature) of
                 Inl err \<Rightarrow> Inl err
               | Inr geom \<Rightarrow>
                   Inr (Some \<lparr>ward_id = toString num wardId, ward_name = wardName,
                              ward_municipality_id =
                                (case municipality of
                                   None \<Rightarrow> None
                                 | Some m \<Rightarrow> if m = [] then None else Some m),
                              ward_geojson = geom, ward_properties = props\<rparr>)))"

fun collectWards ::
  "(real \<Rightarrow> string) \<Rightarrow> string option \<Rightarrow> real \<Rightarrow> ward list \<Rightarrow> feature list
   \<Rightarrow> js_error + ward list" where
  "collectWards num municipality tolerance wardsToInsert [] = Inr wardsToInsert"
| "collectWards num municipality tolerance wardsToInsert (feature # rest) =
     (case toWard num municipality tolerance feature of
        Inl err \<Rightarrow> Inl err
      | Inr None \<Rightarrow> collectWards num municipality tolerance wardsToInsert rest
      | Inr (Some w) \<Rightarrow> collectWards num municipality tolerance (wardsToInsert @ [w]) rest)"

text \<open>
  The loop over the batches. The durable store is not code of this repository: \<open>upsert\<close>
  is a parameter that takes the store and a batch and answers with an error message or
  with the store after the batch. A failed batch ends the import; the batches before it
  stay in the store.
\<close>

function insertBatches ::
  "('db \<Rightarrow> ward list \<Rightarrow> string + 'db) \<Rightarrow> ward list \<Rightarrow> 'db \<Rightarrow> nat \<Rightarrow> nat
   \<Rightarrow> (string + nat) \<times> 'db" where
  "insertBatches upsert wardsToInsert db i insertedCount =
     (if i < length wardsToInsert
      then let batch = take 100 (drop i wardsToInsert)
           in (case upsert db batch of
                 Inl message \<Rightarrow> (Inl message, db)
               | Inr db' \<Rightarrow>
                   insertBatches upsert wardsToInsert db' (i + 100) (insertedCount + length batch))
      else (Inr insertedCount, db))"
  by pat_completeness auto
termination
  by (relation "measure (\<lambda>(upsert, wardsToInsert, db, i, insertedCount). length wardsToInsert - i)")
    auto

definition importWards ::
  "(real \<Rightarrow> string) \<Rightarrow> ('db \<Rightarrow> ward list \<Rightarrow> string + 'db) \<Rightarrow> response \<Rightarrow> import_request
   \<Rightarrow> 'db \<Rightarrow> http_response \<times> 'db" where
  "importWards num upsert fetched body db =
     (let tolerance = (case simplify_tolerance body of None \<Rightarrow> 1 / 1000 | Some t \<Rightarrow> t)
      in if geojson_url body = None \<or> geojson_url body = Some []
         then (BadRequest ''GeoJSON URL is required'', db)
         else (case fetched of
                 Rejected \<Rightarrow> (InternalServerError, db)
               | Response ok status payload \<Rightarrow>
                   if \<not> ok then (BadRequest ''Failed to fetch GeoJSON data'', db)
                   else (case payload of
                           None \<Rightarrow> (InternalServerError, db)
                         | Some geojsonData \<Rightarrow>
                             (case features geojsonData of
                                None \<Rightarrow> (BadRequest ''Invalid GeoJSON format'', db)
                              | Some fs \<Rightarrow>
                                  (case collectWards num (municipality_id body) tolerance [] fs of
                                     Inl err \<Rightarrow> (InternalServerError, db)
                                   | Inr wardsToInsert \<Rightarrow>
                                       if length wardsToInsert = 0
                                       then (BadRequest ''No valid wards found in GeoJSON'', db)
                                       else (case insertBatches upsert wardsToInsert db 0 0 of
                                               (Inl message, db') \<Rightarrow>
                                                 (BadRequest (''Failed to insert ward batch: '' @ message), db')
                                             | (Inr insertedCount, db') \<Rightarrow>
                                                 (ImportSuccess insertedCount (length fs), db')))))))"

text \<open>A feature has a resolvable identifier when one of the three keys holds a truthy
  value.\<close>

definition has_identifier :: "feature \<Rightarrow> bool" where
  "has_identifier feature = truthy (wardIdOf feature)"

text \<open>The features the route can convert: a Polygon that is decimated has a ring.\<close>

definition convertible :: "real \<Rightarrow> feature \<Rightarrow> bool" where
  "convertible tolerance feature =
     (has_identifier feature \<and> tolerance > 0 \<longrightarrow> geometry feature \<noteq> Some (Polygon []))"

subsection \<open>Sample data\<close>

definition print_num :: "real \<Rightarrow> string" where
  "print_num n = (if n = 7 then ''7'' else ''?'')"

text \<open>A store that keeps the rows by \<open>ward_id\<close> and never fails.\<close>

definition upsert_ok :: "(string \<times> ward) list \<Rightarrow> ward list \<Rightarrow> string + (string \<times> ward) list" where
  "upsert_ok db batch = Inr (map (\<lambda>w. (ward_id w, w)) (rev batch) @ db)"

text \<open>A store that takes a batch only while it is empty.\<close>

definition upsert_once :: "(string \<times> ward) list \<Rightarrow> ward list \<Rightarrow> string + (string \<times> ward) list" where
  "upsert_once db batch =
     (if db = [] then Inr (map (\<lambda>w. (ward_id w, w)) (rev batch)) else Inl ''store is not empty'')"

definition row_seven :: ward where
  "row_seven = \<lparr>ward_id = ''7'', ward_name = JStr ''Ward 7'', ward_municipality_id = None,
                ward_geojson = None, ward_properties = []\<rparr>"

definition nameless :: feature where
  "nameless = \<lparr>properties = Some [(''name'', JStr ''No identifier'')],
               geometry = Some (Polygon [square 5 6])\<rparr>"

definition ward_seven :: feature where
  "ward_seven = \<lparr>properties = Some [(''WARD_ID'', JNum 7)], geometry = Some (Polygon [square 7 8])\<rparr>"

definition import_body :: import_request where
  "import_body = \<lparr>geojson_url = Some ''https://example.org/wards.geojson'',
                  municipality_id = None, simplify_tolerance = None\<rparr>"



section \<open>Properties of the ingestion\<close>

lemma toWard_skips: "\<not> has_identifier f \<Longrightarrow> toWard num m tol f = Inr None"
  by (simp add: toWard_def has_identifier_def Let_def)

lemma toWard_converts:
  "has_identifier f \<Longrightarrow> convertible tol f \<Longrightarrow> \<exists>w. toWard num m tol f = Inr (Some w)"
  by (auto simp: toWard_def has_identifier_def convertible_def simplifiedGeometry_def Let_def
      split: option.splits geometry.splits list.splits)

lemma collectWards_length:
  assumes "\<forall>f \<in> set fs. convertible tol f"
  shows "\<exists>ws. collectWards num m tol acc fs = Inr ws
       \<and> length ws = length acc + length (filter has_identifier fs)"
  using assms
proof (induction fs arbitrary: acc)
  case Nil
  then show ?case by simp
next
  case (Cons f fs)
  show ?case
  proof (cases "has_identifier f")
    case True
    with Cons.prems obtain w where w: "toWard num m tol f = Inr (Some w)"
      using toWard_converts by fastforce
    from Cons.IH[of "acc @ [w]"] Cons.prems obtain ws where
      "collectWards num m tol (acc @ [w]) fs = Inr ws"
      "length ws = length (acc @ [w]) + length (filter has_identifier fs)"
      by auto
    with w True show ?thesis by simp
  next
    case False
    then have "toWard num m tol f = Inr None" by (rule toWard_skips)
    with Cons.IH[of acc] Cons.prems False show ?thesis by simp
  qed
qed

lemma insertBatches_count:
  "insertBatches upsert ws db i n = (Inr k, db') \<Longrightarrow> k = n + (length ws - i)"
proof (induction upsert ws db i n rule: insertBatches.induct)
  case (1 upsert ws db i n)
  show ?case
  proof (cases "i < length ws")
    case False
    with "1.prems" show ?thesis by simp
  next
    case True
    show ?thesis
    proof (cases "upsert db (take 100 (drop i ws))")
      case (Inl message)
      with True "1.prems" show ?thesis
        by (subst (asm) insertBatches.simps) (simp add: Let_def)
    next
      case (Inr db1)
      from True Inr "1.prems"
      have "insertBatches upsert ws db1 (i + 100) (n + length (take 100 (drop i ws))) = (Inr k, db')"
        by (subst (asm) insertBatches.simps) (simp add: Let_def)
      from "1.IH"[OF True refl Inr this]
      have "k = n + length (take 100 (drop i ws)) + (length ws - (i + 100))" .
      moreover have "length (take 100 (drop i ws)) + (length ws - (i + 100)) = length ws - i"
        using True by simp
      ultimately show ?thesis by simp
    qed
  qed
qed

text \<open>
  C9, as stated, fails: when no feature of the collection has an identifier, the route
  answers 400 although no upsert failed (none was made).
\<close>

theorem importWards_counts_counterexample:
  "importWards print_num upsert_ok (Response True 200 (Some \<lparr>features = Some [nameless]\<rparr>))
       import_body []
     = (BadRequest ''No valid wards found in GeoJSON'', [])
   \<and> length (filter has_identifier [nameless]) = 0"
  by (simp add: importWards_def import_body_def nameless_def toWard_def wardIdOf_def
      readProp_def js_or_def has_identifier_def Let_def)

text \<open>
  C9, amended. When the collection is fetched and every feature with an identifier (a
  truthy value under \<open>id\<close>, \<open>WARD_ID\<close> or \<open>ward_id\<close>) can be converted (a Polygon that is
  decimated has a ring), the route builds one row for each feature with an identifier,
  in \<open>wardsToInsert\<close>. When at least one feature has an identifier and all batch upserts
  of this import succeed, that is the loop over the batches of \<open>wardsToInsert\<close> runs to
  its end from the store as it is, the route reports \<open>imported_count\<close> equal to the number
  of features with an identifier and \<open>total_features\<close> equal to the number of features of
  the input; when an upsert of this import fails, it answers 400 with the message of that
  upsert. When no feature has an identifier the route answers 400
  \<^verbatim>\<open>'No valid wards found in GeoJSON'\<close> and leaves the store as it is.
\<close>

theorem importWards_counts:
  assumes "geojson_url body = Some url" and "url \<noteq> []"
    and "fetched = Response True status (Some geojsonData)"
    and "features geojsonData = Some fs"
    and "\<forall>f \<in> set fs.
           convertible (case simplify_tolerance body of None \<Rightarrow> 1 / 1000 | Some t \<Rightarrow> t) f"
  shows "\<exists>wardsToInsert.
      collectWards num (municipality_id body)
          (case simplify_tolerance body of None \<Rightarrow> 1 / 1000 | Some t \<Rightarrow> t) [] fs
        = Inr wardsToInsert
    \<and> length wardsToInsert = length (filter has_identifier fs)
    \<and> ((\<exists>f \<in> set fs. has_identifier f) \<longrightarrow>
          (\<forall>insertedCount db'.
              insertBatches upsert wardsToInsert db 0 0 = (Inr insertedCount, db') \<longrightarrow>
                insertedCount = length (filter has_identifier fs)
                \<and> importWards num upsert fetched body db
                    = (ImportSuccess (length (filter has_identifier fs)) (length fs), db'))
        \<and> (\<forall>message db'.
              insertBatches upsert wardsToInsert db 0 0 = (Inl message, db') \<longrightarrow>
                importWards num upsert fetched body db
                  = (BadRequest (''Failed to insert ward batch: '' @ message), db')))
    \<and> (\<not> (\<exists>f \<in> set fs. has_identifier f) \<longrightarrow>
          importWards num upsert fetched body db
            = (BadRequest ''No valid wards found in GeoJSON'', db))"
proof -
  define tol where "tol = (case simplify_tolerance body of None \<Rightarrow> 1 / 1000 | Some t \<Rightarrow> t)"
  from assms(5) obtain ws where
    ws: "collectWards num (municipality_id body) tol [] fs = Inr ws"
    and len: "length ws = length (filter has_identifier fs)"
    using collectWards_length[of fs tol num "municipality_id body" "[]"]
    unfolding tol_def by auto
  have some: "length ws \<noteq> 0" if "\<exists>f \<in> set fs. has_identifier f"
  proof -
    from that have "filter has_identifier fs \<noteq> []"
      by (auto simp: filter_empty_conv)
    with len show ?thesis by simp
  qed
  have none: "length ws = 0" if "\<not> (\<exists>f \<in> set fs. has_identifier f)"
  proof -
    from that have "filter has_identifier fs = []"
      by (auto simp: filter_empty_conv)
    with len show ?thesis by simp
  qed
  have good: "insertedCount = length (filter has_identifier fs)
      \<and> importWards num upsert fetched body db
          = (ImportSuccess (length (filter has_identifier fs)) (length fs), db')"
    if "\<exists>f \<in> set fs. has_identifier f"
      and run: "insertBatches upsert ws db 0 0 = (Inr insertedCount, db')"
    for insertedCount db'
  proof -
    from insertBatches_count[OF run] len
    have k: "insertedCount = length (filter has_identifier fs)" by simp
    from assms(1-4) ws some[OF that(1)] run k show ?thesis
      unfolding importWards_def tol_def[symmetric] Let_def by simp
  qed
  have bad: "importWards num upsert fetched body db
      = (BadRequest (''Failed to insert ward batch: '' @ message), db')"
    if "\<exists>f \<in> set fs. has_identifier f"
      and run: "insertBatches upsert ws db 0 0 = (Inl message, db')"
    for message db'
    using assms(1-4) ws some[OF that(1)] run
    unfolding importWards_def tol_def[symmetric] Let_def by simp
  have empty: "importWards num upsert fetched body db
      = (BadRequest ''No valid wards found in GeoJSON'', db)"
    if "\<not> (\<exists>f \<in> set fs. has_identifier f)"
    using assms(1-4) ws none[OF that]
    unfolding importWards_def tol_def[symmetric] Let_def by simp
  from ws len good bad empty show ?thesis
    unfolding tol_def by blast
qed

theorem importWards_counts_witness:
  "filter has_identifier [ward_a, nameless, ward_seven] = [ward_a, ward_seven]
   \<and> fst (importWards print_num upsert_ok
         (Response True 200 (Some \<lparr>features = Some [ward_a, nameless, ward_seven]\<rparr>))
         import_body [])
     = ImportSuccess 2 3
   \<and> fst (importWards print_num upsert_once
         (Response True 200 (Some \<lparr>features = Some [ward_a, nameless, ward_seven]\<rparr>))
         import_body [])
     = ImportSuccess 2 3
   \<and> upsert_once [(''7'', row_seven)] [row_seven] = Inl ''store is not empty''
   \<and> importWards print_num upsert_ok
         (Response True 200 (Some \<lparr>features = Some [nameless, nameless]\<rparr>)) import_body []
     = (BadRequest ''No valid wards found in GeoJSON'', [])"
proof -
  have ids: "has_identifier ward_a" "\<not> has_identifier nameless" "has_identifier ward_seven"
    by (simp_all add: has_identifier_def wardIdOf_def readProp_def js_or_def ward_a_def
        nameless_def ward_seven_def)
  have a: "geojson_url import_body = Some ''https://example.org/wards.geojson''"
    by (simp add: import_body_def)
  have b: "''https://example.org/wards.geojson'' \<noteq> []" by simp
  have c: "features \<lparr>features = Some [ward_a, nameless, ward_seven]\<rparr>
      = Some [ward_a, nameless, ward_seven]" by simp
  have d: "\<forall>f \<in> set [ward_a, nameless, ward_seven].
      convertible (case simplify_tolerance import_body of None \<Rightarrow> 1 / 1000 | Some t \<Rightarrow> t) f"
    by (simp add: convertible_def ward_a_def nameless_def ward_seven_def)
  have c': "features \<lparr>features = Some [nameless, nameless]\<rparr> = Some [nameless, nameless]" by simp
  have d': "\<forall>f \<in> set [nameless, nameless].
      convertible (case simplify_tolerance import_body of None \<Rightarrow> 1 / 1000 | Some t \<Rightarrow> t) f"
    using ids by (simp add: convertible_def)
  have two: "length (filter has_identifier [ward_a, nameless, ward_seven]) = 2"
    using ids by simp
  have ok: "fst (importWards print_num upsert
         (Response True 200 (Some \<lparr>features = Some [ward_a, nameless, ward_seven]\<rparr>))
         import_body []) = ImportSuccess 2 3"
    if first: "\<And>batch. length batch \<le> 100 \<Longrightarrow> \<exists>db'. upsert [] batch = Inr db'"
    for upsert :: "(string \<times> ward) list \<Rightarrow> ward list \<Rightarrow> string + (string \<times> ward) list"
  proof -
    from importWards_counts[OF a b refl c d, where num = print_num and db = "[]"
        and status = 200 and upsert = upsert]
    obtain ws where
      len': "length ws = length (filter has_identifier [ward_a, nameless, ward_seven])"
      and run': "(\<exists>f \<in> set [ward_a, nameless, ward_seven]. has_identifier f) \<longrightarrow>
          (\<forall>insertedCount db'.
              insertBatches upsert ws [] 0 0 = (Inr insertedCount, db') \<longrightarrow>
                insertedCount = length (filter has_identifier [ward_a, nameless, ward_seven])
                \<and> importWards print_num upsert
                    (Response True 200 (Some \<lparr>features = Some [ward_a, nameless, ward_seven]\<rparr>))
                    import_body []
                    = (ImportSuccess (length (filter has_identifier [ward_a, nameless, ward_seven]))
                         (length [ward_a, nameless, ward_seven]), db'))
        \<and> (\<forall>message db'.
              insertBatches upsert ws [] 0 0 = (Inl message, db') \<longrightarrow>
                importWards print_num upsert
                    (Response True 200 (Some \<lparr>features = Some [ward_a, nameless, ward_seven]\<rparr>))
                    import_body []
                  = (BadRequest (''Failed to insert ward batch: '' @ message), db'))"
      by blast
    from len' two have len: "length ws = 2" by simp
    have "\<exists>f \<in> set [ward_a, nameless, ward_seven]. has_identifier f"
      using ids by simp
    with run' have run: "importWards print_num upsert
            (Response True 200 (Some \<lparr>features = Some [ward_a, nameless, ward_seven]\<rparr>))
            import_body []
          = (ImportSuccess (length (filter has_identifier [ward_a, nameless, ward_seven]))
               (length [ward_a, nameless, ward_seven]), db')"
      if "insertBatches upsert ws [] 0 0 = (Inr k, db')" for k db'
      using that by blast
    from len have t: "take 100 ws = ws" by simp
    from first[of ws] len obtain db' where u: "upsert [] ws = Inr db'" by auto
    have "insertBatches upsert ws [] 0 0 = (Inr 2, db')"
      using len t u by (subst insertBatches.simps) (simp add: Let_def)
    from run[OF this] show ?thesis unfolding two by simp
  qed
  have e: "\<exists>db'. upsert_ok [] batch = Inr db'" for batch
    by (simp add: upsert_ok_def)
  have f: "\<exists>db'. upsert_once [] batch = Inr db'" for batch
    by (simp add: upsert_once_def)
  have g: "upsert_once [(''7'', row_seven)] [row_seven] = Inl ''store is not empty''"
    by (simp add: upsert_once_def)
  have "\<not> (\<exists>f \<in> set [nameless, nameless]. has_identifier f)"
    using ids by simp
  with importWards_counts[OF a b refl c' d', where num = print_num and db = "[]"
      and status = 200 and upsert = upsert_ok]
  have h: "importWards print_num upsert_ok
         (Response True 200 (Some \<lparr>features = Some [nameless, nameless]\<rparr>)) import_body []
     = (BadRequest ''No valid wards found in GeoJSON'', [])"
    by blast
  from ids ok[of upsert_ok, OF e] ok[of upsert_once, OF f] g h show ?thesis by simp
qed

section \<open>Ray casting on convex rings\<close>

text \<open>On which side of the directed line from \<open>a\<close> to \<open>b\<close> the point \<open>(x, y)\<close> lies:
  positive on the left, negative on the right, zero on the line.\<close>

definition side :: "coord \<Rightarrow> coord \<Rightarrow> real \<Rightarrow> real \<Rightarrow> real" where
  "side a b x y = (lng b - lng a) * (y - lat a) - (lat b - lat a) * (x - lng a)"

text \<open>
  A simple convex closed ring, of orientation \<open>s\<close> (1 when it runs counter-clockwise, -1
  when it runs clockwise): it is closed, it has at least three vertices besides the closing
  point, no two of which coincide, and every vertex lies on the inner side of the line
  through every edge, or on that line.
\<close>

definition convex_ring :: "real \<Rightarrow> ring \<Rightarrow> bool" where
  "convex_ring s r \<longleftrightarrow>
     (s = 1 \<or> s = - 1) \<and> closed_ring r \<and> 4 \<le> length r
     \<and> distinct (map (\<lambda>c. (lng c, lat c)) (butlast r))
     \<and> list_all (\<lambda>(a, b). list_all (\<lambda>v. 0 \<le> s * side a b (lng v) (lat v)) r) (edges r)"

text \<open>A point is strictly inside when it lies strictly on the inner side of every edge, and
  strictly outside when it lies strictly on the outer side of some edge.\<close>

definition strictly_inside :: "real \<Rightarrow> point \<Rightarrow> ring \<Rightarrow> bool" where
  "strictly_inside s p r \<longleftrightarrow>
     list_all (\<lambda>(a, b). 0 < s * side a b (longitude p) (latitude p)) (edges r)"

definition strictly_outside :: "real \<Rightarrow> point \<Rightarrow> ring \<Rightarrow> bool" where
  "strictly_outside s p r \<longleftrightarrow>
     list_ex (\<lambda>(a, b). s * side a b (longitude p) (latitude p) < 0) (edges r)"

text \<open>
  Rounding does not decide the test of an edge: if the edge straddles the latitude of the
  point, the computed crossing longitude lies on the same side of the longitude of the
  point as the exact one. A point is safe from rounding on a ring when that holds of
  every edge of the ring.
\<close>

definition crossing_agrees :: "real \<Rightarrow> real \<Rightarrow> coord \<times> coord \<Rightarrow> bool" where
  "crossing_agrees plat plng e =
     (case e of (a, b) \<Rightarrow>
        straddling a b plat \<longrightarrow>
          less_double (Num plng) (computed_crossing a b plat) = (plng < exact_crossing a b plat))"

definition rounding_safe :: "point \<Rightarrow> ring \<Rightarrow> bool" where
  "rounding_safe p r = list_all (crossing_agrees (latitude p) (longitude p)) (edges r)"

subsection \<open>The ring as a periodic sequence of vertices\<close>

text \<open>
  For the proof, the vertices of a closed ring are read as two sequences of period
  \<open>m = length r - 1\<close>, the longitudes \<open>X\<close> and the latitudes \<open>Y\<close>, so that every edge \<open>k\<close>
  has a next edge \<open>Suc k\<close>.
\<close>

definition ringX :: "ring \<Rightarrow> nat \<Rightarrow> real" where
  "ringX r k = lng (r ! (k mod (length r - 1)))"

definition ringY :: "ring \<Rightarrow> nat \<Rightarrow> real" where
  "ringY r k = lat (r ! (k mod (length r - 1)))"

text \<open>\<open>side\<close> for the edge from vertex \<open>k\<close> to vertex \<open>Suc k\<close>.\<close>

definition sd :: "(nat \<Rightarrow> real) \<Rightarrow> (nat \<Rightarrow> real) \<Rightarrow> nat \<Rightarrow> real \<Rightarrow> real \<Rightarrow> real" where
  "sd X Y k x y = (X (Suc k) - X k) * (y - Y k) - (Y (Suc k) - Y k) * (x - X k)"

text \<open>What \<open>convex_ring\<close> says of the two sequences, and what \<open>strictly_inside\<close> says.\<close>

definition cyc :: "real \<Rightarrow> nat \<Rightarrow> (nat \<Rightarrow> real) \<Rightarrow> (nat \<Rightarrow> real) \<Rightarrow> bool" where
  "cyc s m X Y \<longleftrightarrow>
     (s = 1 \<or> s = - 1) \<and> 2 \<le> m \<and> (\<forall>k. X (k + m) = X k \<and> Y (k + m) = Y k)
     \<and> (\<forall>i j. X i = X j \<and> Y i = Y j \<longrightarrow> i mod m = j mod m)
     \<and> (\<forall>k j. 0 \<le> s * sd X Y k (X j) (Y j))"

definition cyc_inside :: "real \<Rightarrow> (nat \<Rightarrow> real) \<Rightarrow> (nat \<Rightarrow> real) \<Rightarrow> real \<Rightarrow> real \<Rightarrow> bool" where
  "cyc_inside s X Y x y \<longleftrightarrow> (\<forall>k. 0 < s * sd X Y k x y)"

text \<open>Where the line through edge \<open>k\<close> meets the latitude \<open>y\<close>, as the code computes it;
  whether the edge straddles the latitude; whether the edge toggles the flag.\<close>

definition xing :: "(nat \<Rightarrow> real) \<Rightarrow> (nat \<Rightarrow> real) \<Rightarrow> nat \<Rightarrow> real \<Rightarrow> real" where
  "xing X Y k y = (X k - X (Suc k)) * (y - Y (Suc k)) / (Y k - Y (Suc k)) + X (Suc k)"

definition straddles :: "(nat \<Rightarrow> real) \<Rightarrow> real \<Rightarrow> nat \<Rightarrow> bool" where
  "straddles Y y k \<longleftrightarrow> (Y (Suc k) > y) \<noteq> (Y k > y)"

definition crosses :: "(nat \<Rightarrow> real) \<Rightarrow> (nat \<Rightarrow> real) \<Rightarrow> real \<Rightarrow> real \<Rightarrow> nat \<Rightarrow> bool" where
  "crosses X Y x y k \<longleftrightarrow> straddles Y y k \<and> x < xing X Y k y"

subsection \<open>Sample data\<close>

definition beyond :: point where
  "beyond = \<lparr>latitude = 2, longitude = 5\<rparr>"

text \<open>
  A triangle that runs counter-clockwise, with a point strictly inside it whose longitude
  is the double written \<^verbatim>\<open>2.333333333333333\<close>, just west of the edge from (3, 0) to (1, 3),
  which crosses the latitude 1 at the longitude 7/3; and a point well inside.
\<close>

definition wedge :: ring where
  "wedge =
     [\<lparr>ident = 0, lng = 0, lat = 0\<rparr>, \<lparr>ident = 1, lng = 3, lat = 0\<rparr>,
      \<lparr>ident = 2, lng = 1, lat = 3\<rparr>, \<lparr>ident = 3, lng = 0, lat = 0\<rparr>]"

definition near_edge :: point where
  "near_edge = \<lparr>latitude = 1, longitude = 2627099782632789 / 1125899906842624\<rparr>"

definition well_inside :: point where
  "well_inside = \<lparr>latitude = 1, longitude = 2\<rparr>"

text \<open>
  A triangle that runs clockwise, with a point strictly outside it whose longitude is the
  double written \<^verbatim>\<open>0.6666666666666666\<close>, just west of the edge from (-1, 0) to (4, 3),
  which crosses the latitude 1 at the longitude 2/3.
\<close>

definition sliver :: ring where
  "sliver =
     [\<lparr>ident = 0, lng = 0, lat = 0\<rparr>, \<lparr>ident = 1, lng = - 1, lat = 0\<rparr>,
      \<lparr>ident = 2, lng = 4, lat = 3\<rparr>, \<lparr>ident = 3, lng = 0, lat = 0\<rparr>]"

definition off_edge :: point where
  "off_edge = \<lparr>latitude = 1, longitude = 6004799503160661 / 9007199254740992\<rparr>"

text \<open>A ring that runs clockwise, with a vertex in the middle of an edge.\<close>

definition clockwise :: ring where
  "clockwise =
     [\<lparr>ident = 0, lng = 0, lat = 0\<rparr>, \<lparr>ident = 1, lng = 0, lat = 4\<rparr>,
      \<lparr>ident = 2, lng = 2, lat = 4\<rparr>, \<lparr>ident = 3, lng = 4, lat = 4\<rparr>,
      \<lparr>ident = 4, lng = 4, lat = 0\<rparr>, \<lparr>ident = 5, lng = 0, lat = 0\<rparr>]"

subsection \<open>Proofs\<close>

lemma cyc_sign: "cyc s m X Y \<Longrightarrow> s = 1 \<or> s = - 1"
  unfolding cyc_def by blast

lemma cyc_convex: "cyc s m X Y \<Longrightarrow> 0 \<le> s * sd X Y k (X j) (Y j)"
  unfolding cyc_def by blast

lemma cyc_distinct: "cyc s m X Y \<Longrightarrow> X i = X j \<Longrightarrow> Y i = Y j \<Longrightarrow> i mod m = j mod m"
  unfolding cyc_def by blast

lemma cyc_period:
  assumes "cyc s m X Y"
  shows "X (k mod m) = X k" "Y (k mod m) = Y k"
proof -
  have step: "X (i + m) = X i \<and> Y (i + m) = Y i" for i
    using assms unfolding cyc_def by blast
  have p: "X (i + n * m) = X i \<and> Y (i + n * m) = Y i" for i n
  proof (induction n)
    case 0
    show ?case by simp
  next
    case (Suc n)
    have "i + Suc n * m = (i + n * m) + m" by simp
    then have "X (i + Suc n * m) = X (i + n * m) \<and> Y (i + Suc n * m) = Y (i + n * m)"
      using step[of "i + n * m"] by (simp only:)
    with Suc show ?case by (simp only:)
  qed
  have "k mod m + k div m * m = k" by simp
  with p[of "k mod m" "k div m"] show "X (k mod m) = X k" "Y (k mod m) = Y k"
    by (simp_all only:)
qed

text \<open>Sign bookkeeping for the orientation.\<close>

lemma sign_nonneg_cancel:
  assumes "s = 1 \<or> s = - 1" "0 \<le> s * a" "0 \<le> s * b" "u < 0" "0 < v" "D * a = u * F" "D * b = v * F" "0 < (D::real)"
  shows "F = 0"
proof -
  have "D * (s * a) = u * (s * F)" using assms(6) by algebra
  moreover from assms(2,8) have "0 \<le> D * (s * a)" by simp
  ultimately have 1: "0 \<le> u * (s * F)" by linarith
  have "D * (s * b) = v * (s * F)" using assms(7) by algebra
  moreover from assms(3,8) have "0 \<le> D * (s * b)" by simp
  ultimately have 2: "0 \<le> v * (s * F)" by linarith
  from 1 assms(4) have "s * F \<le> 0" by (simp add: zero_le_mult_iff)
  moreover from 2 assms(5) have "0 \<le> s * F" by (simp add: zero_le_mult_iff)
  ultimately have "s * F = 0" by simp
  with assms(1) show ?thesis by auto
qed

text \<open>A vertex strictly inside a collinear edge: the next edge continues upward on the line.\<close>

lemma walk_step:
  assumes c: "cyc s m X Y" and i: "cyc_inside s X Y x y"
    and up0: "Y j0 < Y (Suc j0)"
    and t: "sd X Y j0 (X t) (Y t) = 0"
    and j: "sd X Y j0 (X j) (Y j) = 0" and j': "sd X Y j0 (X (Suc j)) (Y (Suc j)) = 0"
    and lo: "Y j < Y t" and hi: "Y t < Y (Suc j)"
  shows "sd X Y j0 (X (Suc t)) (Y (Suc t)) = 0 \<and> Y t < Y (Suc t)"
proof -
  define DX DY where "DX = X (Suc j0) - X j0" and "DY = Y (Suc j0) - Y j0"
  define wx wy where "wx = X (Suc t) - X t" and "wy = Y (Suc t) - Y t"
  define F where "F = wx * DY - wy * DX"
  have DY: "0 < DY" using up0 by (simp add: DY_def)
  have et: "DY * (X t - X j0) = DX * (Y t - Y j0)"
    using t unfolding sd_def DX_def DY_def by algebra
  have ej: "DY * (X j - X j0) = DX * (Y j - Y j0)"
    using j unfolding sd_def DX_def DY_def by algebra
  have ej': "DY * (X (Suc j) - X j0) = DX * (Y (Suc j) - Y j0)"
    using j' unfolding sd_def DX_def DY_def by algebra
  have a: "DY * sd X Y t (X j) (Y j) = (Y j - Y t) * F"
    using et ej unfolding sd_def F_def wx_def wy_def by algebra
  have b: "DY * sd X Y t (X (Suc j)) (Y (Suc j)) = (Y (Suc j) - Y t) * F"
    using et ej' unfolding sd_def F_def wx_def wy_def by algebra
  have F0: "F = 0"
    by (rule sign_nonneg_cancel[OF cyc_sign[OF c] cyc_convex[OF c, of t j]
          cyc_convex[OF c, of t "Suc j"] _ _ a b DY]) (use lo hi in simp_all)
  have on: "sd X Y j0 (X (Suc t)) (Y (Suc t)) = 0"
  proof -
    have "sd X Y j0 (X (Suc t)) (Y (Suc t)) = sd X Y j0 (X t) (Y t) - F"
      unfolding sd_def F_def wx_def wy_def DX_def DY_def by algebra
    with t F0 show ?thesis by simp
  qed
  have dir: "DY * sd X Y t x y = wy * sd X Y j0 x y"
    using F0 et unfolding sd_def F_def wx_def wy_def DX_def DY_def by algebra
  have "0 < s * sd X Y t x y" "0 < s * sd X Y j0 x y"
    using i by (simp_all add: cyc_inside_def)
  then have "0 < DY * (s * sd X Y t x y)" using DY by simp
  moreover have "DY * (s * sd X Y t x y) = wy * (s * sd X Y j0 x y)" using dir by algebra
  ultimately have "0 < wy * (s * sd X Y j0 x y)" by linarith
  with \<open>0 < s * sd X Y j0 x y\<close> have "0 < wy" by (rule zero_less_mult_pos2[rotated])
  with on show ?thesis by (simp add: wy_def)
qed

lemma cyc_pos: "cyc s m X Y \<Longrightarrow> 0 < m"
  unfolding cyc_def by linarith

lemma higher_fewer:
  assumes c: "cyc s m X Y" and lt: "Y a < Y b"
  shows "card {v. v < m \<and> Y b < Y v} < card {v. v < m \<and> Y a < Y v}"
proof (rule psubset_card_mono)
  show "finite {v. v < m \<and> Y a < Y v}" by simp
  have "b mod m < m" using cyc_pos[OF c] by simp
  moreover have "Y (b mod m) = Y b" by (rule cyc_period[OF c])
  ultimately have "b mod m \<in> {v. v < m \<and> Y a < Y v}" "b mod m \<notin> {v. v < m \<and> Y b < Y v}"
    using lt by simp_all
  moreover have "{v. v < m \<and> Y b < Y v} \<subseteq> {v. v < m \<and> Y a < Y v}"
    using lt by auto
  ultimately show "{v. v < m \<and> Y b < Y v} \<subset> {v. v < m \<and> Y a < Y v}" by blast
qed

lemma same_height_same_point:
  assumes "sd X Y j0 (X u) (Y u) = 0" "sd X Y j0 (X v) (Y v) = 0" "Y u = Y v"
    "Y j0 \<noteq> Y (Suc j0)"
  shows "X u = X v"
proof -
  have "(Y (Suc j0) - Y j0) * (X u - X v) = 0"
    using assms(1,2,3) unfolding sd_def by algebra
  with assms(4) show ?thesis by simp
qed

lemma pred_mod:
  assumes "Suc a mod m = Suc b mod m"
  shows "a mod m = b mod m"
  by (metis Zero_not_Suc assms mod_Suc old.nat.inject)

text \<open>No vertex lies strictly inside an edge that runs along the same line.\<close>

lemma no_vertex_inside_edge:
  assumes c: "cyc s m X Y" and i: "cyc_inside s X Y x y" and up0: "Y j0 < Y (Suc j0)"
  shows "sd X Y j0 (X t) (Y t) = 0 \<Longrightarrow> sd X Y j0 (X j) (Y j) = 0
    \<Longrightarrow> sd X Y j0 (X (Suc j)) (Y (Suc j)) = 0 \<Longrightarrow> Y j < Y t \<Longrightarrow> Y t < Y (Suc j) \<Longrightarrow> False"
proof (induction "card {v. v < m \<and> Y t < Y v}" arbitrary: t j rule: less_induct)
  case less
  from walk_step[OF c i up0 less.prems]
  have on': "sd X Y j0 (X (Suc t)) (Y (Suc t)) = 0" and up: "Y t < Y (Suc t)" by simp_all
  consider "Y (Suc t) = Y (Suc j)" | "Y (Suc t) < Y (Suc j)" | "Y (Suc j) < Y (Suc t)"
    by linarith
  then show ?case
  proof cases
    case 1
    from up0 have "Y j0 \<noteq> Y (Suc j0)" by simp
    from same_height_same_point[OF on' less.prems(3) 1 this]
    have "X (Suc t) = X (Suc j)" .
    from cyc_distinct[OF c this 1] have "t mod m = j mod m" by (rule pred_mod)
    then have "Y t = Y j" using cyc_period(2)[OF c, of t] cyc_period(2)[OF c, of j] by simp
    with less.prems(4) show False by simp
  next
    case 2
    have "card {v. v < m \<and> Y (Suc t) < Y v} < card {v. v < m \<and> Y t < Y v}"
      by (rule higher_fewer[OF c up])
    from less.hyps[OF this on' less.prems(2,3) _ 2] less.prems(4) up show False
      by simp
  next
    case 3
    have "card {v. v < m \<and> Y (Suc j) < Y v} < card {v. v < m \<and> Y t < Y v}"
      by (rule higher_fewer[OF c less.prems(5)])
    from less.hyps[OF this less.prems(3) less.prems(1) on' less.prems(5) 3] show False .
  qed
qed

lemma xing_on: 
  assumes "Y k \<noteq> Y (Suc k)" 
  shows "sd X Y k (xing X Y k y) y = 0"
proof -
  have "(Y k - Y (Suc k)) * (xing X Y k y - X (Suc k)) = (X k - X (Suc k)) * (y - Y (Suc k))"
    using assms by (simp add: xing_def)
  then show ?thesis unfolding sd_def by algebra
qed

lemma sd_shift: "sd X Y k x y = sd X Y k x' y - (Y (Suc k) - Y k) * (x - x')"
  unfolding sd_def by algebra

lemma sd_on_edge:
  assumes "sd X Y k x y = 0"
  shows "(Y (Suc k) - Y k) * sd X Y k' x y
       = (Y (Suc k) - y) * sd X Y k' (X k) (Y k) + (y - Y k) * sd X Y k' (X (Suc k)) (Y (Suc k))"
  using assms unfolding sd_def by algebra

text \<open>A point of an edge lies on the inner side of every edge.\<close>

lemma edge_point_inner:
  assumes c: "cyc s m X Y" and on: "sd X Y k x y = 0"
    and str: "Y k \<le> y \<and> y \<le> Y (Suc k) \<and> Y k < Y (Suc k) \<or> Y (Suc k) \<le> y \<and> y \<le> Y k \<and> Y (Suc k) < Y k"
  shows "0 \<le> s * sd X Y k' x y"
proof -
  define A B where "A = s * sd X Y k' (X k) (Y k)" and "B = s * sd X Y k' (X (Suc k)) (Y (Suc k))"
  have A: "0 \<le> A" and B: "0 \<le> B"
    unfolding A_def B_def by (rule cyc_convex[OF c])+
  have e: "(Y (Suc k) - Y k) * (s * sd X Y k' x y) = (Y (Suc k) - y) * A + (y - Y k) * B"
    using sd_on_edge[OF on, of k'] unfolding A_def B_def by algebra
  from str show ?thesis
  proof
    assume u: "Y k \<le> y \<and> y \<le> Y (Suc k) \<and> Y k < Y (Suc k)"
    then have "0 \<le> (Y (Suc k) - y) * A" "0 \<le> (y - Y k) * B"
      using A B by simp_all
    with e have "0 \<le> (Y (Suc k) - Y k) * (s * sd X Y k' x y)" by linarith
    with u show ?thesis by (simp add: zero_le_mult_iff)
  next
    assume d: "Y (Suc k) \<le> y \<and> y \<le> Y k \<and> Y (Suc k) < Y k"
    then have "(Y (Suc k) - y) * A \<le> 0" "(y - Y k) * B \<le> 0"
      using A B by (simp_all add: mult_le_0_iff)
    with e have "(Y (Suc k) - Y k) * (s * sd X Y k' x y) \<le> 0" by linarith
    with d show ?thesis by (simp add: mult_le_0_iff)
  qed
qed

lemma sign_cancel: "s = 1 \<or> s = - 1 \<Longrightarrow> s * (a::real) = 0 \<Longrightarrow> a = 0"
  by auto

text \<open>Two upward edges that straddle the latitude meet it in one point.\<close>

lemma up_edges_meet:
  assumes c: "cyc s m X Y"
    and k: "Y k \<le> y" "y < Y (Suc k)" and k': "Y k' \<le> y" "y < Y (Suc k')"
  shows "xing X Y k y = xing X Y k' y"
proof -
  define x x' where "x = xing X Y k y" and "x' = xing X Y k' y"
  have on: "sd X Y k x y = 0" and on': "sd X Y k' x' y = 0"
    unfolding x_def x'_def using k k' by (auto intro!: xing_on)
  have "0 \<le> s * sd X Y k x' y"
    by (rule edge_point_inner[OF c on']) (use k' in simp)
  moreover have "s * sd X Y k x' y = - ((Y (Suc k) - Y k) * (s * (x' - x)))"
    using sd_shift[of X Y k x' y x] on by algebra
  ultimately have "(Y (Suc k) - Y k) * (s * (x' - x)) \<le> 0" by linarith
  with k have 1: "s * (x' - x) \<le> 0" by (simp add: mult_le_0_iff)
  have "0 \<le> s * sd X Y k' x y"
    by (rule edge_point_inner[OF c on]) (use k in simp)
  moreover have "s * sd X Y k' x y = - ((Y (Suc k') - Y k') * (s * (x - x')))"
    using sd_shift[of X Y k' x y x'] on' by algebra
  ultimately have "(Y (Suc k') - Y k') * (s * (x - x')) \<le> 0" by linarith
  with k' have 2: "s * (x - x') \<le> 0" by (simp add: mult_le_0_iff)
  have "s * (x - x') = - (s * (x' - x))" by algebra
  with 1 2 have "s * (x - x') = 0" by linarith
  with cyc_sign[OF c] have "x - x' = 0" by (rule sign_cancel)
  then show ?thesis by (simp add: x_def x'_def)
qed

lemma sd_ends: "sd X Y k (X k) (Y k) = 0" "sd X Y k (X (Suc k)) (Y (Suc k)) = 0"
  unfolding sd_def by algebra+

lemma weighted_zero:
  fixes A B u v :: real
  assumes "0 \<le> A" "0 \<le> B" "0 < u" "0 < v" "u * A + v * B = 0"
  shows "A = 0 \<and> B = 0"
proof -
  have "0 \<le> u * A" "0 \<le> v * B" using assms by simp_all
  with assms(5) have "u * A = 0" "v * B = 0" by linarith+
  with assms(3,4) show ?thesis by simp
qed

text \<open>An upward edge that the latitude cuts strictly above its start lies on the line of
  every other upward edge that straddles the latitude.\<close>

lemma up_edges_collinear:
  assumes c: "cyc s m X Y"
    and k: "Y k < y" "y < Y (Suc k)" and k': "Y k' \<le> y" "y < Y (Suc k')"
  shows "sd X Y k' (X k) (Y k) = 0 \<and> sd X Y k' (X (Suc k)) (Y (Suc k)) = 0"
proof -
  define x where "x = xing X Y k y"
  have on: "sd X Y k x y = 0"
    unfolding x_def using k by (auto intro!: xing_on)
  have "x = xing X Y k' y"
    unfolding x_def by (rule up_edges_meet[OF c _ k(2) k']) (use k in simp)
  then have on': "sd X Y k' x y = 0"
    using k' by (auto intro!: xing_on)
  define A B where "A = s * sd X Y k' (X k) (Y k)" and "B = s * sd X Y k' (X (Suc k)) (Y (Suc k))"
  have A: "0 \<le> A" and B: "0 \<le> B"
    unfolding A_def B_def by (rule cyc_convex[OF c])+
  have "(Y (Suc k) - y) * A + (y - Y k) * B = 0"
    using sd_on_edge[OF on, of k'] on' unfolding A_def B_def by algebra
  from weighted_zero[OF A B _ _ this] k have "A = 0 \<and> B = 0" by simp
  with cyc_sign[OF c] show ?thesis
    unfolding A_def B_def by (auto dest: sign_cancel)
qed

lemma unique_up_strict:
  assumes c: "cyc s m X Y" and i: "cyc_inside s X Y x y"
    and a: "Y a < y" "y < Y (Suc a)" and b: "Y b \<le> y" "y < Y (Suc b)"
  shows "a mod m = b mod m"
proof (rule ccontr)
  assume ne: "a mod m \<noteq> b mod m"
  from up_edges_collinear[OF c a b]
  have oa: "sd X Y b (X a) (Y a) = 0" and oa': "sd X Y b (X (Suc a)) (Y (Suc a)) = 0"
    by simp_all
  have up0: "Y b < Y (Suc b)" using b by simp
  consider "Y (Suc a) = Y (Suc b)" | "Y (Suc a) < Y (Suc b)" | "Y (Suc b) < Y (Suc a)"
    by linarith
  then show False
  proof cases
    case 1
    from up0 have "Y b \<noteq> Y (Suc b)" by simp
    from same_height_same_point[OF oa' sd_ends(2) 1 this] have "X (Suc a) = X (Suc b)" .
    from cyc_distinct[OF c this 1] have "a mod m = b mod m" by (rule pred_mod)
    with ne show False by simp
  next
    case 2
    show False
      by (rule no_vertex_inside_edge[OF c i up0 oa' sd_ends(1) sd_ends(2) _ 2])
        (use a b in simp)
  next
    case 3
    show False
      by (rule no_vertex_inside_edge[OF c i up0 sd_ends(2) oa oa' _ 3])
        (use a b in simp)
  qed
qed

lemma unique_up:
  assumes c: "cyc s m X Y" and i: "cyc_inside s X Y x y"
    and a: "Y a \<le> y" "y < Y (Suc a)" and b: "Y b \<le> y" "y < Y (Suc b)"
  shows "a mod m = b mod m"
proof -
  consider "Y a < y" | "Y b < y" | "Y a = y" "Y b = y" using a b by linarith
  then show ?thesis
  proof cases
    case 1
    then show ?thesis by (rule unique_up_strict[OF c i _ a(2) b])
  next
    case 2
    then have "b mod m = a mod m" by (rule unique_up_strict[OF c i _ b(2) a])
    then show ?thesis by simp
  next
    case 3
    define xc where "xc = xing X Y a y"
    have "sd X Y a xc y = 0" unfolding xc_def using a by (auto intro!: xing_on)
    then have "(Y (Suc a) - Y a) * (xc - X a) = 0"
      using 3(1) unfolding sd_def by algebra
    with a 3 have xa: "xc = X a" by simp
    have "xc = xing X Y b y" unfolding xc_def by (rule up_edges_meet[OF c a b])
    then have "sd X Y b xc y = 0" using b by (auto intro!: xing_on)
    then have "(Y (Suc b) - Y b) * (xc - X b) = 0"
      using 3(2) unfolding sd_def by algebra
    with b 3 have "xc = X b" by simp
    with xa have "X a = X b" by simp
    moreover from 3 have "Y a = Y b" by simp
    ultimately show ?thesis by (rule cyc_distinct[OF c])
  qed
qed

lemma cyc_shift:
  assumes c: "cyc s m X Y"
  shows "X (k + n * m) = X k" "Y (k + n * m) = Y k"
proof -
  have "(k + n * m) mod m = k mod m" by simp
  then show "X (k + n * m) = X k" "Y (k + n * m) = Y k"
    using cyc_period[OF c, of "k + n * m"] cyc_period[OF c, of k] by simp_all
qed

lemma suc_mod_ne: "2 \<le> m \<Longrightarrow> p mod m \<noteq> Suc p mod m"
  by (metis One_nat_def mod_Suc n_not_Suc_n numeral_le_one_iff semiring_norm(69))

text \<open>The vertex that is highest and, among the highest, furthest east.\<close>

lemma lexmax_vertex:
  assumes c: "cyc s m X Y"
  shows "\<exists>w. 0 < w \<and> (\<forall>j. Y j < Y w \<or> (Y j = Y w \<and> X j \<le> X w))"
proof -
  let ?S = "(\<lambda>k. (Y k, X k)) ` {0..<m}"
  have fin: "finite ?S" by simp
  have ne: "?S \<noteq> {}" using cyc_pos[OF c] by simp
  from Max_in[OF fin ne] obtain v where v: "v < m" "Max ?S = (Y v, X v)" by auto
  have le: "(Y j, X j) \<le> (Y v, X v)" for j
  proof -
    have "j mod m < m" using cyc_pos[OF c] by simp
    then have "(Y (j mod m), X (j mod m)) \<in> ?S" by auto
    from Max_ge[OF fin this] v(2) show ?thesis
      using cyc_period[OF c, of j] by simp
  qed
  have "X (v + 1 * m) = X v" "Y (v + 1 * m) = Y v"
    by (rule cyc_shift[OF c])+
  moreover have "Y j < Y v \<or> (Y j = Y v \<and> X j \<le> X v)" for j
    using le[of j] by (auto simp: less_eq_prod_def)
  ultimately have "\<forall>j. Y j < Y (v + m) \<or> (Y j = Y (v + m) \<and> X j \<le> X (v + m))"
    by simp
  moreover have "0 < v + m" using cyc_pos[OF c] by simp
  ultimately show ?thesis by blast
qed

lemma three_nonneg_zero:
  fixes a b c' :: real
  assumes "0 \<le> a" "0 \<le> b" "0 \<le> c'" "a + b + c' = 0"
  shows "a = 0 \<and> b = 0 \<and> c' = 0"
  using assms by linarith

lemma exists_above:
  assumes c: "cyc s m X Y" and i: "cyc_inside s X Y x y"
  shows "\<exists>k. y < Y k"
proof (rule ccontr)
  assume "\<not> (\<exists>k. y < Y k)"
  then have below: "Y k \<le> y" for k by (simp add: not_less)
  from lexmax_vertex[OF c] obtain w where w: "0 < w"
    and mx: "\<And>j. Y j < Y w \<or> (Y j = Y w \<and> X j \<le> X w)" by blast
  define p where "p = w - 1"
  have sp: "Suc p = w" using w by (simp add: p_def)
  have m2: "2 \<le> m" using c unfolding cyc_def by blast
  define d1x d1y d2x d2y ex ey where "d1x = X w - X p" and "d1y = Y w - Y p"
    and "d2x = X (Suc w) - X w" and "d2y = Y (Suc w) - Y w" and "ex = x - X w" and "ey = y - Y w"
  define c1 c2 c3 where "c1 = s * (d1x * ey - d1y * ex)" and "c2 = s * (d2x * ey - d2y * ex)"
    and "c3 = s * (d1x * d2y - d1y * d2x)"
  have i1: "0 < s * sd X Y p x y" and i2: "0 < s * sd X Y w x y"
    using i unfolding cyc_inside_def by blast+
  have "sd X Y p x y = d1x * ey - d1y * ex"
    unfolding sd_def sp d1x_def d1y_def ex_def ey_def by algebra
  with i1 have c1: "0 < c1" unfolding c1_def by simp
  have "sd X Y w x y = d2x * ey - d2y * ex"
    unfolding sd_def d2x_def d2y_def ex_def ey_def by (rule refl)
  with i2 have c2: "0 < c2" unfolding c2_def by simp
  have "sd X Y p (X (Suc w)) (Y (Suc w)) = d1x * d2y - d1y * d2x"
    unfolding sd_def sp d1x_def d1y_def d2x_def d2y_def by algebra
  with cyc_convex[OF c, of p "Suc w"] have c3: "0 \<le> c3" unfolding c3_def by simp
  have ey: "0 \<le> ey" using below[of w] by (simp add: ey_def)
  have d1y: "0 \<le> d1y" using mx[of p] unfolding d1y_def by linarith
  have d2y: "d2y \<le> 0" using mx[of "Suc w"] unfolding d2y_def by linarith
  have idt: "c3 * ey + c2 * d1y + c1 * (- d2y) = 0"
    unfolding c1_def c2_def c3_def by algebra
  have t1: "0 \<le> c3 * ey" by (rule mult_nonneg_nonneg[OF c3 ey])
  have t2: "0 \<le> c2 * d1y" by (rule mult_nonneg_nonneg[OF less_imp_le[OF c2] d1y])
  have "0 \<le> - d2y" using d2y by simp
  then have t3: "0 \<le> c1 * (- d2y)" by (rule mult_nonneg_nonneg[OF less_imp_le[OF c1]])
  from three_nonneg_zero[OF t1 t2 t3 idt] have "c2 * d1y = 0" "c1 * (- d2y) = 0" by blast+
  with c1 c2 have z1: "d1y = 0" and z2: "d2y = 0" by auto
  have "p mod m \<noteq> w mod m" using suc_mod_ne[OF m2, of p] sp by simp
  with cyc_distinct[OF c, of p w] have "\<not> (X p = X w \<and> Y p = Y w)" by blast
  moreover from z1 have "Y p = Y w" by (simp add: d1y_def)
  ultimately have "X p \<noteq> X w" by simp
  with mx[of p] \<open>Y p = Y w\<close> have d1x: "0 < d1x" unfolding d1x_def by linarith
  have "Suc w mod m \<noteq> w mod m" using suc_mod_ne[OF m2, of w] by simp
  with cyc_distinct[OF c, of "Suc w" w] have "\<not> (X (Suc w) = X w \<and> Y (Suc w) = Y w)" by blast
  moreover from z2 have "Y (Suc w) = Y w" by (simp add: d2y_def)
  ultimately have "X (Suc w) \<noteq> X w" by simp
  with mx[of "Suc w"] \<open>Y (Suc w) = Y w\<close> have d2x: "d2x < 0" unfolding d2x_def by linarith
  have "c1 = d1x * (s * ey)" unfolding c1_def z1 by algebra
  with c1 have "0 < d1x * (s * ey)" by simp
  with d1x have a: "0 < s * ey" by (simp add: zero_less_mult_iff)
  have "c2 = d2x * (s * ey)" unfolding c2_def z2 by algebra
  with c2 have "0 < d2x * (s * ey)" by simp
  with d2x have "s * ey < 0" by (simp add: zero_less_mult_iff)
  with a show False by simp
qed

lemma sd_neg: "sd (\<lambda>k. - X k) (\<lambda>k. - Y k) k (- x) (- y) = sd X Y k x y"
  unfolding sd_def by algebra

lemma cyc_neg:
  assumes c: "cyc s m X Y"
  shows "cyc s m (\<lambda>k. - X k) (\<lambda>k. - Y k)"
proof -
  have 1: "s = 1 \<or> s = - 1" by (rule cyc_sign[OF c])
  have 2: "2 \<le> m" using c unfolding cyc_def by blast
  have 3: "\<forall>k. - X (k + m) = - X k \<and> - Y (k + m) = - Y k"
    using cyc_shift[OF c, of _ 1] by simp
  have 4: "\<forall>i j. - X i = - X j \<and> - Y i = - Y j \<longrightarrow> i mod m = j mod m"
  proof (intro allI impI)
    fix i j assume "- X i = - X j \<and> - Y i = - Y j"
    then have "X i = X j" "Y i = Y j" by simp_all
    then show "i mod m = j mod m" by (rule cyc_distinct[OF c])
  qed
  have 5: "\<forall>k j. 0 \<le> s * sd (\<lambda>k. - X k) (\<lambda>k. - Y k) k (- X j) (- Y j)"
  proof (intro allI)
    fix k j
    show "0 \<le> s * sd (\<lambda>k. - X k) (\<lambda>k. - Y k) k (- X j) (- Y j)"
      unfolding sd_neg by (rule cyc_convex[OF c])
  qed
  from 1 2 3 4 5 show ?thesis unfolding cyc_def by blast
qed

lemma exists_below:
  assumes c: "cyc s m X Y" and i: "cyc_inside s X Y x y"
  shows "\<exists>k. Y k < y"
proof -
  have "cyc_inside s (\<lambda>k. - X k) (\<lambda>k. - Y k) (- x) (- y)"
    using i unfolding cyc_inside_def by (simp add: sd_neg)
  from exists_above[OF cyc_neg[OF c] this] show ?thesis by simp
qed

lemma scan_up:
  fixes Y :: "nat \<Rightarrow> real"
  shows "Y i \<le> y \<Longrightarrow> y < Y (i + d) \<Longrightarrow> \<exists>k. Y k \<le> y \<and> y < Y (Suc k)"
proof (induction d)
  case 0
  then have False by simp
  then show ?case ..
next
  case (Suc d)
  show ?case
  proof (cases "y < Y (i + d)")
    case True
    with Suc show ?thesis by blast
  next
    case False
    with Suc.prems(2) have "Y (i + d) \<le> y \<and> y < Y (Suc (i + d))" by simp
    then show ?thesis by blast
  qed
qed

lemma cyc_suc: 
  assumes c: "cyc s m X Y"
  shows "X (Suc (k mod m)) = X (Suc k)" "Y (Suc (k mod m)) = Y (Suc k)"
proof -
  have "Suc (k mod m) mod m = Suc k mod m" by (rule mod_Suc_eq)
  then show "X (Suc (k mod m)) = X (Suc k)" "Y (Suc (k mod m)) = Y (Suc k)"
    using cyc_period[OF c, of "Suc (k mod m)"] cyc_period[OF c, of "Suc k"] by simp_all
qed

lemma exists_up:
  assumes c: "cyc s m X Y" and i: "cyc_inside s X Y x y"
  shows "\<exists>k<m. Y k \<le> y \<and> y < Y (Suc k)"
proof -
  from exists_above[OF c i] obtain a where a: "y < Y a" by blast
  from exists_below[OF c i] obtain b where b: "Y b < y" by blast
  have "Y (a + b * m) = Y a" by (rule cyc_shift[OF c])
  moreover have "a + b * m = b + (a + b * (m - 1))"
    using cyc_pos[OF c] by (cases m) simp_all
  ultimately have "y < Y (b + (a + b * (m - 1)))" using a by simp
  moreover have "Y b \<le> y" using b by simp
  ultimately obtain k where k: "Y k \<le> y" "y < Y (Suc k)"
    using scan_up[of Y b y "a + b * (m - 1)"] by blast
  have "k mod m < m" using cyc_pos[OF c] by simp
  moreover have "Y (k mod m) \<le> y" using k(1) cyc_period(2)[OF c, of k] by simp
  moreover have "y < Y (Suc (k mod m))" using k(2) cyc_suc(2)[OF c, of k] by simp
  ultimately show ?thesis by blast
qed

lemma card_less_Suc:
  "card {k. k < Suc n \<and> P k} = card {k. k < n \<and> P k} + (if P n then 1 else 0)"
proof -
  have "{k. k < Suc n \<and> P k} = (if P n then insert n {k. k < n \<and> P k} else {k. k < n \<and> P k})"
    by (auto simp: less_Suc_eq)
  moreover have "n \<notin> {k. k < n \<and> P k}" by simp
  moreover have "finite {k. k < n \<and> P k}" by simp
  ultimately show ?thesis by simp
qed

lemma up_down_count:
  fixes Y :: "nat \<Rightarrow> real"
  shows "card {k. k < n \<and> Y k \<le> y \<and> y < Y (Suc k)} + (if y < Y 0 then 1 else 0)
       = card {k. k < n \<and> Y (Suc k) \<le> y \<and> y < Y k} + (if y < Y n then 1 else 0)"
proof (induction n)
  case 0
  show ?case by simp
next
  case (Suc n)
  show ?case
    unfolding card_less_Suc using Suc by (auto split: if_splits)
qed

lemma cyc_up_down:
  assumes c: "cyc s m X Y"
  shows "card {k. k < m \<and> Y k \<le> y \<and> y < Y (Suc k)} = card {k. k < m \<and> Y (Suc k) \<le> y \<and> y < Y k}"
proof -
  have "Y (0 + 1 * m) = Y 0" by (rule cyc_shift[OF c])
  then have "Y m = Y 0" by simp
  with up_down_count[of m Y y] show ?thesis by (simp split: if_splits)
qed

lemma straddles_cases:
  "straddles Y y k \<longleftrightarrow> (Y k \<le> y \<and> y < Y (Suc k)) \<or> (Y (Suc k) \<le> y \<and> y < Y k)"
  unfolding straddles_def by auto

text \<open>For a point strictly inside, the edges that toggle are the upward ones in a ring
  that runs counter-clockwise and the downward ones in a ring that runs clockwise.\<close>

lemma inside_crosses:
  assumes c: "cyc s m X Y" and i: "cyc_inside s X Y x y"
  shows "Y k \<le> y \<and> y < Y (Suc k) \<Longrightarrow> (x < xing X Y k y) = (s = 1)"
    and "Y (Suc k) \<le> y \<and> y < Y k \<Longrightarrow> (x < xing X Y k y) = (s = - 1)"
proof -
  define xk where "xk = xing X Y k y"
  define DY where "DY = Y (Suc k) - Y k"
  have pos: "0 < s * sd X Y k x y" using i unfolding cyc_inside_def by blast
  have e: "Y k \<noteq> Y (Suc k) \<Longrightarrow> s * sd X Y k x y = DY * (s * (xk - x))"
  proof -
    assume "Y k \<noteq> Y (Suc k)"
    then have "sd X Y k xk y = 0" unfolding xk_def by (rule xing_on)
    then show ?thesis using sd_shift[of X Y k x y xk] unfolding DY_def by algebra
  qed
  {
    assume u: "Y k \<le> y \<and> y < Y (Suc k)"
    then have "Y k \<noteq> Y (Suc k)" by auto
    from e[OF this] pos have "0 < DY * (s * (xk - x))" by linarith
    moreover have "0 < DY" using u by (simp add: DY_def)
    ultimately have "0 < s * (xk - x)" by (simp add: zero_less_mult_iff)
    with cyc_sign[OF c] show "(x < xing X Y k y) = (s = 1)"
      unfolding xk_def[symmetric] by auto
  }
  {
    assume d: "Y (Suc k) \<le> y \<and> y < Y k"
    then have "Y k \<noteq> Y (Suc k)" by auto
    from e[OF this] pos have "0 < DY * (s * (xk - x))" by linarith
    moreover have "DY < 0" using d by (simp add: DY_def)
    ultimately have "s * (xk - x) < 0" by (simp add: zero_less_mult_iff)
    with cyc_sign[OF c] show "(x < xing X Y k y) = (s = - 1)"
      unfolding xk_def[symmetric] by auto
  }
qed

lemma up_set_single:
  assumes c: "cyc s m X Y" and i: "cyc_inside s X Y x y"
  shows "card {k. k < m \<and> Y k \<le> y \<and> y < Y (Suc k)} = 1"
proof -
  from exists_up[OF c i] obtain k0 where k0: "k0 < m" "Y k0 \<le> y" "y < Y (Suc k0)" by blast
  have "{k. k < m \<and> Y k \<le> y \<and> y < Y (Suc k)} = {k0}"
  proof (rule set_eqI)
    fix k
    show "k \<in> {k. k < m \<and> Y k \<le> y \<and> y < Y (Suc k)} \<longleftrightarrow> k \<in> {k0}"
    proof
      assume "k \<in> {k. k < m \<and> Y k \<le> y \<and> y < Y (Suc k)}"
      then have k: "k < m" "Y k \<le> y" "y < Y (Suc k)" by simp_all
      from unique_up[OF c i k(2,3) k0(2,3)] have "k mod m = k0 mod m" .
      with k(1) k0(1) show "k \<in> {k0}" by simp
    next
      assume "k \<in> {k0}"
      with k0 show "k \<in> {k. k < m \<and> Y k \<le> y \<and> y < Y (Suc k)}" by simp
    qed
  qed
  then show ?thesis by simp
qed

theorem inside_parity:
  assumes c: "cyc s m X Y" and i: "cyc_inside s X Y x y"
  shows "odd (card {k. k < m \<and> crosses X Y x y k})"
proof -
  have U: "card {k. k < m \<and> Y k \<le> y \<and> y < Y (Suc k)} = 1"
    by (rule up_set_single[OF c i])
  with cyc_up_down[OF c, of y] have D: "card {k. k < m \<and> Y (Suc k) \<le> y \<and> y < Y k} = 1"
    by simp
  from cyc_sign[OF c] show ?thesis
  proof
    assume s: "s = 1"
    have "{k. k < m \<and> crosses X Y x y k} = {k. k < m \<and> Y k \<le> y \<and> y < Y (Suc k)}"
      unfolding crosses_def straddles_cases
      using inside_crosses[OF c i] s by auto
    with U show ?thesis by simp
  next
    assume s: "s = - 1"
    have "{k. k < m \<and> crosses X Y x y k} = {k. k < m \<and> Y (Suc k) \<le> y \<and> y < Y k}"
      unfolding crosses_def straddles_cases
      using inside_crosses[OF c i] s by auto
    with D show ?thesis by simp
  qed
qed

lemma between_inner:
  assumes "0 \<le> s * sd X Y e x1 y" "0 \<le> s * sd X Y e x2 y" "x1 \<le> x" "x \<le> x2"
  shows "0 \<le> s * sd X Y e x y"
proof -
  define c where "c = s * (Y (Suc e) - Y e)"
  have f1: "s * sd X Y e x y = s * sd X Y e x1 y + (- c) * (x - x1)"
    using sd_shift[of X Y e x y x1] unfolding c_def by algebra
  have f2: "s * sd X Y e x y = s * sd X Y e x2 y + c * (x2 - x)"
    using sd_shift[of X Y e x y x2] unfolding c_def by algebra
  show ?thesis
  proof (cases "0 \<le> c")
    case True
    moreover from assms(4) have "0 \<le> x2 - x" by simp
    ultimately have "0 \<le> c * (x2 - x)" by (rule mult_nonneg_nonneg)
    with f2 assms(2) show ?thesis by linarith
  next
    case False
    then have "0 \<le> - c" by simp
    moreover from assms(3) have "0 \<le> x - x1" by simp
    ultimately have "0 \<le> (- c) * (x - x1)" by (rule mult_nonneg_nonneg)
    with f1 assms(1) show ?thesis by linarith
  qed
qed

lemma straddle_point_inner:
  assumes c: "cyc s m X Y" and k: "straddles Y y k"
  shows "0 \<le> s * sd X Y e (xing X Y k y) y"
proof (rule edge_point_inner[OF c])
  from k have "Y k \<noteq> Y (Suc k)" unfolding straddles_cases by auto
  then show "sd X Y k (xing X Y k y) y = 0" by (rule xing_on)
  from k show "Y k \<le> y \<and> y \<le> Y (Suc k) \<and> Y k < Y (Suc k)
      \<or> Y (Suc k) \<le> y \<and> y \<le> Y k \<and> Y (Suc k) < Y k"
    unfolding straddles_cases by auto
qed

lemma outside_agree:
  assumes c: "cyc s m X Y" and out: "s * sd X Y e x y < 0"
    and k: "straddles Y y k" and k': "straddles Y y k'" and x: "x < xing X Y k y"
  shows "x < xing X Y k' y"
proof (rule ccontr)
  assume "\<not> x < xing X Y k' y"
  then have "xing X Y k' y \<le> x" by simp
  moreover from x have "x \<le> xing X Y k y" by simp
  ultimately have "0 \<le> s * sd X Y e x y"
    by (rule between_inner[OF straddle_point_inner[OF c k'] straddle_point_inner[OF c k]])
  with out show False by simp
qed

theorem outside_parity:
  assumes c: "cyc s m X Y" and out: "s * sd X Y e x y < 0"
  shows "even (card {k. k < m \<and> crosses X Y x y k})"
proof (cases "{k. k < m \<and> crosses X Y x y k} = {}")
  case True
  then have "card {k. k < m \<and> crosses X Y x y k} = 0" by (simp only: card.empty)
  then show ?thesis by (simp only: even_zero)
next
  case False
  then obtain k0 where k0: "straddles Y y k0" "x < xing X Y k0 y"
    unfolding crosses_def by blast
  let ?U = "{k. k < m \<and> Y k \<le> y \<and> y < Y (Suc k)}"
  let ?D = "{k. k < m \<and> Y (Suc k) \<le> y \<and> y < Y k}"
  have "{k. k < m \<and> crosses X Y x y k} = {k. k < m \<and> straddles Y y k}"
    unfolding crosses_def using outside_agree[OF c out k0(1) _ k0(2)] by blast
  also have "\<dots> = ?U \<union> ?D"
    unfolding straddles_cases by blast
  finally have "card {k. k < m \<and> crosses X Y x y k} = card (?U \<union> ?D)" by simp
  also have "\<dots> = card ?U + card ?D"
    by (rule card_Un_disjoint) auto
  also have "\<dots> = 2 * card ?U"
    using cyc_up_down[OF c, of y] by simp
  finally show ?thesis by simp
qed

lemma edges_length: "length (edges r) = length r - 1"
  unfolding edges_def by simp

lemma edges_nth: "k < length r - 1 \<Longrightarrow> edges r ! k = (r ! k, r ! Suc k)"
  unfolding edges_def by (simp add: nth_tl)

lemma ring_suc:
  assumes cl: "closed_ring r" and len: "2 \<le> length r"
  shows "ringX r (Suc k) = lng (r ! Suc (k mod (length r - 1)))"
    and "ringY r (Suc k) = lat (r ! Suc (k mod (length r - 1)))"
proof -
  define m where "m = length r - 1"
  have m: "0 < m" "length r = Suc m" using len by (simp_all add: m_def)
  have ne: "r \<noteq> []" using len by auto
  have both: "lng (r ! (Suc k mod m)) = lng (r ! Suc (k mod m))
      \<and> lat (r ! (Suc k mod m)) = lat (r ! Suc (k mod m))"
  proof (cases "Suc (k mod m) = m")
    case True
    then have "Suc k mod m = 0" by (simp add: mod_Suc)
    moreover have "r ! 0 = hd r" using ne by (simp add: hd_conv_nth)
    moreover have "r ! Suc (k mod m) = last r" using ne True m by (simp add: last_conv_nth)
    ultimately show ?thesis using cl unfolding closed_ring_def by simp
  next
    case False
    then have "Suc k mod m = Suc (k mod m)" by (simp add: mod_Suc)
    then show ?thesis by simp
  qed
  from both show "ringX r (Suc k) = lng (r ! Suc (k mod (length r - 1)))"
    unfolding ringX_def m_def by simp
  from both show "ringY r (Suc k) = lat (r ! Suc (k mod (length r - 1)))"
    unfolding ringY_def m_def by simp
qed

lemma ring_sd:
  assumes cl: "closed_ring r" and len: "2 \<le> length r"
  shows "sd (ringX r) (ringY r) k x y
       = side (r ! (k mod (length r - 1))) (r ! Suc (k mod (length r - 1))) x y"
  unfolding sd_def side_def ring_suc[OF cl len] by (simp add: ringX_def ringY_def)

lemma ring_edge_mem:
  assumes len: "2 \<le> length r"
  shows "(r ! (k mod (length r - 1)), r ! Suc (k mod (length r - 1))) \<in> set (edges r)"
proof -
  have "k mod (length r - 1) < length r - 1" using len by simp
  then show ?thesis
    using edges_nth[of "k mod (length r - 1)" r] edges_length[of r]
    by (metis nth_mem)
qed

lemma ring_cyc:
  assumes cv: "convex_ring s r"
  shows "cyc s (length r - 1) (ringX r) (ringY r)"
proof -
  define m where "m = length r - 1"
  have sgn: "s = 1 \<or> s = - 1" and cl: "closed_ring r" and len4: "4 \<le> length r"
    and dist: "distinct (map (\<lambda>c. (lng c, lat c)) (butlast r))"
    and cvx: "list_all (\<lambda>(a, b). list_all (\<lambda>v. 0 \<le> s * side a b (lng v) (lat v)) r) (edges r)"
    using cv unfolding convex_ring_def by blast+
  have len: "2 \<le> length r" using len4 by simp
  have m: "2 \<le> m" "0 < m" using len4 by (simp_all add: m_def)
  have per: "\<forall>k. ringX r (k + m) = ringX r k \<and> ringY r (k + m) = ringY r k"
    unfolding ringX_def ringY_def m_def by simp
  have dst: "\<forall>i j. ringX r i = ringX r j \<and> ringY r i = ringY r j \<longrightarrow> i mod m = j mod m"
  proof (intro allI impI)
    fix i j assume e: "ringX r i = ringX r j \<and> ringY r i = ringY r j"
    let ?ps = "map (\<lambda>c. (lng c, lat c)) (butlast r)"
    have li: "i mod m < length ?ps" and lj: "j mod m < length ?ps"
      using m by (simp_all add: m_def)
    have "?ps ! (i mod m) = (lng (r ! (i mod m)), lat (r ! (i mod m)))"
      using li by (simp add: nth_butlast)
    moreover have "?ps ! (j mod m) = (lng (r ! (j mod m)), lat (r ! (j mod m)))"
      using lj by (simp add: nth_butlast)
    ultimately have "?ps ! (i mod m) = ?ps ! (j mod m)"
      using e unfolding ringX_def ringY_def m_def by simp
    with dist li lj show "i mod m = j mod m"
      by (simp only: nth_eq_iff_index_eq)
  qed
  have cvx': "\<forall>k j. 0 \<le> s * sd (ringX r) (ringY r) k (ringX r j) (ringY r j)"
  proof (intro allI)
    fix k j
    have "j mod m < m" using m by simp
    then have "j mod m < length r" by (simp add: m_def)
    then have v: "r ! (j mod m) \<in> set r" by simp
    from ring_edge_mem[OF len, of k] cvx v
    have "0 \<le> s * side (r ! (k mod (length r - 1))) (r ! Suc (k mod (length r - 1)))
                     (lng (r ! (j mod m))) (lat (r ! (j mod m)))"
      unfolding list_all_iff by fastforce
    then show "0 \<le> s * sd (ringX r) (ringY r) k (ringX r j) (ringY r j)"
      unfolding ring_sd[OF cl len] by (simp add: ringX_def ringY_def m_def)
  qed
  from sgn m(1) per dst cvx' show ?thesis unfolding cyc_def m_def by blast
qed

lemma ring_inside:
  assumes cl: "closed_ring r" and len: "2 \<le> length r" and ins: "strictly_inside s p r"
  shows "cyc_inside s (ringX r) (ringY r) (longitude p) (latitude p)"
  unfolding cyc_inside_def
proof
  fix k
  from ring_edge_mem[OF len, of k] ins
  show "0 < s * sd (ringX r) (ringY r) k (longitude p) (latitude p)"
    unfolding ring_sd[OF cl len] strictly_inside_def list_all_iff by fastforce
qed

lemma ring_outside:
  assumes cl: "closed_ring r" and len: "2 \<le> length r" and out: "strictly_outside s p r"
  shows "\<exists>e. s * sd (ringX r) (ringY r) e (longitude p) (latitude p) < 0"
proof -
  from out obtain a b where ab: "(a, b) \<in> set (edges r)"
    and neg: "s * side a b (longitude p) (latitude p) < 0"
    unfolding strictly_outside_def list_ex_iff by auto
  from ab obtain k where k: "k < length r - 1" "edges r ! k = (a, b)"
    unfolding in_set_conv_nth edges_length by blast
  then have "a = r ! k" "b = r ! Suc k" using edges_nth[of k r] by simp_all
  moreover have "k mod (length r - 1) = k" using k(1) by simp
  ultimately have "sd (ringX r) (ringY r) k (longitude p) (latitude p)
      = side a b (longitude p) (latitude p)"
    unfolding ring_sd[OF cl len] by simp
  with neg show ?thesis by metis
qed

lemma toggles_crosses:
  assumes cl: "closed_ring r" and len: "2 \<le> length r" and k: "k < length r - 1"
    and safe: "rounding_safe p r"
  shows "toggles (latitude p) (longitude p) (edges r ! k)
       = crosses (ringX r) (ringY r) (longitude p) (latitude p) k"
proof -
  have km: "k mod (length r - 1) = k" using k by simp
  have X: "ringX r k = lng (r ! k)" and Y: "ringY r k = lat (r ! k)"
    unfolding ringX_def ringY_def km by simp_all
  have X': "ringX r (Suc k) = lng (r ! Suc k)" and Y': "ringY r (Suc k) = lat (r ! Suc k)"
    using ring_suc[OF cl len, of k] unfolding km by simp_all
  have "edges r ! k \<in> set (edges r)"
    using k by (simp add: edges_length)
  then have "(r ! k, r ! Suc k) \<in> set (edges r)"
    unfolding edges_nth[OF k] .
  with safe have "crossing_agrees (latitude p) (longitude p) (r ! k, r ! Suc k)"
    unfolding rounding_safe_def list_all_iff by blast
  then have agree: "straddling (r ! k) (r ! Suc k) (latitude p) \<longrightarrow>
      less_double (Num (longitude p)) (computed_crossing (r ! k) (r ! Suc k) (latitude p))
      = (longitude p < exact_crossing (r ! k) (r ! Suc k) (latitude p))"
    unfolding crossing_agrees_def by simp
  have "crosses (ringX r) (ringY r) (longitude p) (latitude p) k
      = (straddling (r ! k) (r ! Suc k) (latitude p)
         \<and> longitude p < exact_crossing (r ! k) (r ! Suc k) (latitude p))"
    unfolding crosses_def straddles_def xing_def X Y X' Y' straddling_def exact_crossing_def
    by simp
  with agree show ?thesis
    unfolding edges_nth[OF k] toggles_def by auto
qed

lemma isPointInPolygon_crossings:
  assumes cl: "closed_ring r" and len: "2 \<le> length r" and safe: "rounding_safe p r"
  shows "isPointInPolygon p r
       = odd (card {k. k < length r - 1 \<and> crosses (ringX r) (ringY r) (longitude p) (latitude p) k})"
proof -
  have "length (filter (toggles (latitude p) (longitude p)) (edges r))
      = card {k. k < length (edges r) \<and> toggles (latitude p) (longitude p) (edges r ! k)}"
    by (rule length_filter_conv_card)
  also have "{k. k < length (edges r) \<and> toggles (latitude p) (longitude p) (edges r ! k)}
      = {k. k < length r - 1 \<and> crosses (ringX r) (ringY r) (longitude p) (latitude p) k}"
    unfolding edges_length using toggles_crosses[OF cl len _ safe] by blast
  finally show ?thesis
    unfolding isPointInPolygon_parity[OF cl] by simp
qed

lemma crossing_agrees_pair:
  "crossing_agrees plat plng (a, b)
     = (straddling a b plat \<longrightarrow>
          less_double (Num plng) (computed_crossing a b plat) = (plng < exact_crossing a b plat))"
  by (simp add: crossing_agrees_def)

lemma samples_convex:
  "convex_ring 1 (square 0 4)" "convex_ring (- 1) clockwise"
  "convex_ring 1 wedge" "convex_ring (- 1) sliver"
  by (simp_all add: convex_ring_def closed_ring_def square_def clockwise_def wedge_def
      sliver_def edges_def side_def)

text \<open>
  C3, as stated, fails. The crossing longitude is computed in double precision, and a
  point closer to an edge than the rounding error of that computation is taken for a
  point on the other side of the edge. The point (2.333333333333333, 1) is strictly
  inside the triangle (0, 0), (3, 0), (1, 3): the edge from (3, 0) to (1, 3) crosses the
  latitude 1 at the longitude 7/3. The loop computes that crossing as 2.333333333333333,
  the longitude of the point, so the test \<^verbatim>\<open>lng < ...\<close> fails on the only edge east of the
  point and the function returns false. In the same way it returns true for the point
  (0.6666666666666666, 1), strictly outside the triangle (0, 0), (-1, 0), (4, 3). All
  coordinates are doubles.
\<close>

theorem isPointInPolygon_convex_counterexample:
  "convex_ring 1 wedge
   \<and> is_double (longitude near_edge) \<and> is_double (latitude near_edge)
   \<and> strictly_inside 1 near_edge wedge
   \<and> \<not> isPointInPolygon near_edge wedge
   \<and> convex_ring (- 1) sliver
   \<and> is_double (longitude off_edge) \<and> is_double (latitude off_edge)
   \<and> strictly_outside (- 1) off_edge sliver
   \<and> isPointInPolygon off_edge sliver"
proof -
  have a: "is_double (longitude near_edge)" "is_double (latitude near_edge)"
    "is_double (longitude off_edge)" "is_double (latitude off_edge)"
    by (simp_all add: near_edge_def off_edge_def double_arith)
  have b: "strictly_inside 1 near_edge wedge"
    by (simp add: strictly_inside_def wedge_def edges_def side_def near_edge_def)
  have c: "strictly_outside (- 1) off_edge sliver"
    by (simp add: strictly_outside_def sliver_def edges_def side_def off_edge_def)
  have d: "\<not> isPointInPolygon near_edge wedge"
    by (simp add: crossing_test wedge_def near_edge_def)
  have e: "isPointInPolygon off_edge sliver"
    by (simp add: crossing_test sliver_def off_edge_def)
  from samples_convex(3,4) a b c d e show ?thesis by blast
qed

text \<open>
  C3, amended. For every simple convex closed ring, of either orientation, and every point
  such that rounding does not decide the test of any edge (on every edge that straddles
  the latitude of the point, the crossing longitude computed in double precision lies on
  the same side of the longitude of the point as the exact crossing longitude),
  \<open>isPointInPolygon\<close> returns true when the point is strictly inside the ring and false
  when it is strictly outside. A vertex is neither inside nor outside; there the function
  returns the value the loop computes, one value for one input (true at one corner of
  the sample square and false at the opposite one).
\<close>

theorem isPointInPolygon_convex:
  assumes cv: "convex_ring s r" and safe: "rounding_safe p r"
  shows "(strictly_inside s p r \<longrightarrow> isPointInPolygon p r)
       \<and> (strictly_outside s p r \<longrightarrow> \<not> isPointInPolygon p r)"
proof -
  have cl: "closed_ring r" and len: "2 \<le> length r"
    using cv unfolding convex_ring_def by auto
  note c = ring_cyc[OF cv]
  show ?thesis
  proof (intro conjI impI)
    assume "strictly_inside s p r"
    from inside_parity[OF c ring_inside[OF cl len this]]
    show "isPointInPolygon p r" unfolding isPointInPolygon_crossings[OF cl len safe] .
  next
    assume "strictly_outside s p r"
    from ring_outside[OF cl len this] obtain e where
      "s * sd (ringX r) (ringY r) e (longitude p) (latitude p) < 0" ..
    from outside_parity[OF c this]
    show "\<not> isPointInPolygon p r" unfolding isPointInPolygon_crossings[OF cl len safe] by simp
  qed
qed

theorem isPointInPolygon_convex_witness:
  "convex_ring 1 (square 0 4)
   \<and> rounding_safe centre (square 0 4) \<and> rounding_safe beyond (square 0 4)
   \<and> strictly_inside 1 centre (square 0 4) \<and> isPointInPolygon centre (square 0 4)
   \<and> strictly_outside 1 beyond (square 0 4) \<and> \<not> isPointInPolygon beyond (square 0 4)
   \<and> convex_ring (- 1) clockwise
   \<and> rounding_safe centre clockwise \<and> rounding_safe beyond clockwise
   \<and> strictly_inside (- 1) centre clockwise \<and> isPointInPolygon centre clockwise
   \<and> strictly_outside (- 1) beyond clockwise \<and> \<not> isPointInPolygon beyond clockwise
   \<and> convex_ring 1 wedge \<and> rounding_safe well_inside wedge
   \<and> computed_crossing (wedge ! 1) (wedge ! 2) 1 = Num (2627099782632789 / 1125899906842624)
   \<and> exact_crossing (wedge ! 1) (wedge ! 2) 1 = 7 / 3
   \<and> strictly_inside 1 well_inside wedge \<and> isPointInPolygon well_inside wedge
   \<and> \<not> rounding_safe near_edge wedge
   \<and> isPointInPolygon \<lparr>latitude = 0, longitude = 0\<rparr> (square 0 4)
   \<and> \<not> isPointInPolygon \<lparr>latitude = 4, longitude = 4\<rparr> (square 0 4)"
proof -
  note safe = rounding_safe_def crossing_agrees_pair exact_crossing_def crossing_test
  have s: "rounding_safe centre (square 0 4)" "rounding_safe beyond (square 0 4)"
    by (simp_all add: safe square_def centre_def beyond_def)
  have s': "rounding_safe centre clockwise" "rounding_safe beyond clockwise"
    by (simp_all add: safe clockwise_def centre_def beyond_def)
  have x: "computed_crossing (wedge ! 1) (wedge ! 2) 1 = Num (2627099782632789 / 1125899906842624)"
    "exact_crossing (wedge ! 1) (wedge ! 2) 1 = 7 / 3"
    by (simp_all add: computed_crossing_def exact_crossing_def wedge_def double_arith)
  have s'': "rounding_safe well_inside wedge" "\<not> rounding_safe near_edge wedge"
    by (simp_all add: safe wedge_def well_inside_def near_edge_def)
  have b: "strictly_inside 1 centre (square 0 4)"
    by (simp add: strictly_inside_def square_def edges_def side_def centre_def)
  have c: "strictly_outside 1 beyond (square 0 4)"
    by (simp add: strictly_outside_def square_def edges_def side_def beyond_def)
  have b': "strictly_inside (- 1) centre clockwise"
    by (simp add: strictly_inside_def clockwise_def edges_def side_def centre_def)
  have c': "strictly_outside (- 1) beyond clockwise"
    by (simp add: strictly_outside_def clockwise_def edges_def side_def beyond_def)
  have b'': "strictly_inside 1 well_inside wedge"
    by (simp add: strictly_inside_def wedge_def edges_def side_def well_inside_def)
  have v: "isPointInPolygon \<lparr>latitude = 0, longitude = 0\<rparr> (square 0 4)"
    "\<not> isPointInPolygon \<lparr>latitude = 4, longitude = 4\<rparr> (square 0 4)"
    by (simp_all add: crossing_test square_def)
  from isPointInPolygon_convex[OF samples_convex(1) s(1)] b
  have d: "isPointInPolygon centre (square 0 4)" by blast
  from isPointInPolygon_convex[OF samples_convex(1) s(2)] c
  have e: "\<not> isPointInPolygon beyond (square 0 4)" by blast
  from isPointInPolygon_convex[OF samples_convex(2) s'(1)] b'
  have d': "isPointInPolygon centre clockwise" by blast
  from isPointInPolygon_convex[OF samples_convex(2) s'(2)] c'
  have e': "\<not> isPointInPolygon beyond clockwise" by blast
  from isPointInPolygon_convex[OF samples_convex(3) s''(1)] b''
  have d'': "isPointInPolygon well_inside wedge" by blast
  from samples_convex s s' s'' x b c b' c' b'' d e d' e' d'' v show ?thesis by blast
qed

end
